theory Spec2Isabelle
  imports Complex_Main "HOL-Library.AList" "HOL-Library.Multiset"
begin

section \<open>Data model of the editor (src/editor.js, class MeshEditor)\<close>

text \<open>
  Numbers of the source are IEEE doubles. Transform components and keyframe values are
  modelled as \<open>real\<close>, frames and object ids as \<open>int\<close>. A vector of three numbers
  (\<open>mesh.position.toArray()\<close>, a keyframe's \<open>value\<close>) is a triple.
\<close>

type_synonym vec3 = "real \<times> real \<times> real"

text \<open>A keyframe \<open>{ frame, value }\<close> of a track.\<close>

record keyframe =
  kf_frame :: int
  kf_value :: vec3

text \<open>
  A clip \<open>{ position: [...], rotation: [...] }\<close>. Either property may be absent
  (\<open>undefined\<close>) in a clip that was read from a file, hence the options.
\<close>

record clip =
  clip_position :: "keyframe list option"
  clip_rotation :: "keyframe list option"

text \<open>
  A live scene object \<open>objData = { id, name, type, mesh }\<close>. The source compares objects
  by reference (\<open>includes\<close>, \<open>indexOf\<close>, \<open>o !== obj\<close>); \<open>ref\<close> is that identity: a
  number drawn from \<open>nextRef\<close> when the object (and its mesh) is allocated. The three
  vectors are the transform held by \<open>mesh\<close>.
\<close>

record objData =
  ref :: nat
  obj_id :: int
  obj_name :: string
  obj_type :: string
  position :: vec3
  rotation :: vec3
  scale :: vec3

text \<open>The record that \<open>serializeObject\<close> returns and \<open>createObjectFromData\<close> reads.\<close>

record serialized =
  d_id :: int
  d_name :: string
  d_type :: string
  d_position :: vec3
  d_rotation :: vec3
  d_scale :: vec3
  d_trackTarget :: "int option"

text \<open>
  An entry of the undo or redo stack: the object that \<open>saveState\<close> builds. The source
  keeps it as a JSON string and parses it back in \<open>undo\<close>/\<open>redo\<close>; the model keeps the
  structure itself (\<open>JSON.parse (JSON.stringify x)\<close> is a deep copy of such an \<open>x\<close>).
\<close>

record snapshot =
  snap_objects :: "serialized list"
  snap_clips :: "int \<rightharpoonup> clip"

text \<open>
  The fields of \<open>MeshEditor\<close> that the operations below read or write. Lists of objects
  other than \<open>objects\<close> itself (\<open>selectedObjects\<close>, \<open>sceneCameras\<close>) hold references.
  \<open>cameraTrackTargets\<close> is iterated by \<open>updateCameraTracking\<close>, so it is an association
  list; \<open>clips\<close> is only read by key. \<open>undoLimit\<close> is \<open>theme.controls.undoLimit\<close>.
  \<open>activeSceneCamera\<close> is a reference too (\<open>None\<close> for null); it is not removed when its
  object leaves the scene.
\<close>

record editor =
  objects :: "objData list"
  selectedObjects :: "nat list"
  clipboard :: "serialized list option"
  undoStack :: "snapshot list"
  redoStack :: "snapshot list"
  objectIdCounter :: int
  currentGridPlane :: string
  sceneCameras :: "nat list"
  activeSceneCamera :: "nat option"
  currentFrame :: int
  totalFrames :: int
  isPlaying :: bool
  clips :: "int \<rightharpoonup> clip"
  cameraTrackTargets :: "(int \<times> int) list"
  undoLimit :: nat
  nextRef :: nat

text \<open>The object behind a reference, among the live objects.\<close>

definition deref :: "editor \<Rightarrow> nat \<Rightarrow> objData option" where
  "deref s r = find (\<lambda>ob. ref ob = r) (objects s)"

section \<open>Keyframe interpolation\<close>

text \<open>
  The loop of \<open>interpolateKeyframes\<close>: the first index \<open>i\<close> with
  \<open>keyframes[i].frame <= frame && keyframes[i + 1].frame >= frame\<close>, where the loop
  breaks; \<open>None\<close> when the loop ends without a break.
\<close>

fun findBracket :: "keyframe list \<Rightarrow> int \<Rightarrow> (keyframe \<times> keyframe) option" where
  "findBracket (a # b # rest) f =
     (if kf_frame a \<le> f \<and> kf_frame b \<ge> f then Some (a, b) else findBracket (b # rest) f)"
| "findBracket _ f = None"

text \<open>
  The last two lines of \<open>interpolateKeyframes\<close>. A division by zero would make the
  result non-finite in the source; the model returns \<open>None\<close> for it.
\<close>

definition lerp :: "keyframe \<Rightarrow> keyframe \<Rightarrow> int \<Rightarrow> vec3 option" where
  "lerp before after f =
     (if kf_frame after - kf_frame before = 0 then None
      else
        let t = real_of_int (f - kf_frame before) / real_of_int (kf_frame after - kf_frame before)
        in (case (kf_value before, kf_value after) of
              ((v0, v1, v2), (a0, a1, a2)) \<Rightarrow>
                Some (v0 + (a0 - v0) * t, v1 + (a1 - v1) * t, v2 + (a2 - v2) * t)))"

definition interpolateKeyframes :: "keyframe list \<Rightarrow> int \<Rightarrow> vec3 option" where
  "interpolateKeyframes keyframes f =
     (case keyframes of
        [] \<Rightarrow> Some (0, 0, 0)
      | [k] \<Rightarrow> Some (kf_value k)
      | k # _ \<Rightarrow>
          (let (before, after) =
                 (case findBracket keyframes f of
                    Some p \<Rightarrow> p
                  | None \<Rightarrow> (k, last keyframes))
           in if f \<le> kf_frame before then Some (kf_value before)
              else if f \<ge> kf_frame after then Some (kf_value after)
              else lerp before after f))"

section \<open>Selection\<close>

definition deselectAll :: "editor \<Rightarrow> editor" where
  "deselectAll s = s\<lparr>selectedObjects := []\<rparr>"

definition addToSelection :: "nat \<Rightarrow> editor \<Rightarrow> editor" where
  "addToSelection r s =
     (if r \<in> set (selectedObjects s) then s
      else s\<lparr>selectedObjects := selectedObjects s @ [r]\<rparr>)"

text \<open>\<open>indexOf\<close> gives the first index and \<open>splice(idx, 1)\<close> removes that element.\<close>

definition removeFromSelection :: "nat \<Rightarrow> editor \<Rightarrow> editor" where
  "removeFromSelection r s =
     (if r \<notin> set (selectedObjects s) then s
      else s\<lparr>selectedObjects := remove1 r (selectedObjects s)\<rparr>)"

definition selectObject :: "nat \<Rightarrow> bool \<Rightarrow> editor \<Rightarrow> editor" where
  "selectObject r additive' s =
     (let s1 = (if \<not> additive' then deselectAll s else s)
      in if r \<in> set (selectedObjects s1) \<and> additive' then removeFromSelection r s1
         else addToSelection r s1)"

definition selectAll :: "editor \<Rightarrow> editor" where
  "selectAll s = foldl (\<lambda>t ob. addToSelection (ref ob) t) (deselectAll s) (objects s)"

section \<open>Undo and redo\<close>

text \<open>\<open>this.cameraTrackTargets[o.id] || null\<close>: a stored target that is falsy reads as null.\<close>

definition serializeObject :: "editor \<Rightarrow> objData \<Rightarrow> serialized" where
  "serializeObject s ob =
     \<lparr>d_id = obj_id ob, d_name = obj_name ob, d_type = obj_type ob,
      d_position = position ob, d_rotation = rotation ob, d_scale = scale ob,
      d_trackTarget =
        (case map_of (cameraTrackTargets s) (obj_id ob) of
           Some t \<Rightarrow> if t \<noteq> 0 then Some t else None
         | None \<Rightarrow> None)\<rparr>"

text \<open>The \<open>state\<close> object that \<open>saveState\<close> builds from the live scene.\<close>

definition currentSnapshot :: "editor \<Rightarrow> snapshot" where
  "currentSnapshot s =
     \<lparr>snap_objects = map (serializeObject s) (objects s), snap_clips = clips s\<rparr>"

text \<open>\<open>push\<close> appends, \<open>shift\<close> drops the first (oldest) entry.\<close>

definition saveState :: "editor \<Rightarrow> editor" where
  "saveState s =
     (let st = undoStack s @ [currentSnapshot s];
          st' = (if length st > undoLimit s then tl st else st)
      in s\<lparr>undoStack := st', redoStack := []\<rparr>)"

text \<open>
  \<open>createObjectFromData\<close>: a record of an unknown type creates nothing. Each branch
  allocates a new mesh, hence a new reference.
\<close>

definition createObjectFromData :: "serialized \<Rightarrow> editor \<Rightarrow> editor" where
  "createObjectFromData d s =
     (if d_type d = ''quad'' \<or> d_type d = ''cube'' \<or> d_type d = ''camera'' then
        (let objData = \<lparr>ref = nextRef s, obj_id = d_id d, obj_name = d_name d,
                        obj_type = d_type d, position = d_position d,
                        rotation = d_rotation d, scale = d_scale d\<rparr>
         in s\<lparr>objects := objects s @ [objData],
              sceneCameras :=
                (if d_type d = ''camera'' then sceneCameras s @ [nextRef s] else sceneCameras s),
              nextRef := Suc (nextRef s)\<rparr>)
      else s)"

text \<open>The body of the loop of \<open>restoreState\<close>; \<open>if (data.trackTarget)\<close> tests truthiness.\<close>

definition restoreObject :: "editor \<Rightarrow> serialized \<Rightarrow> editor" where
  "restoreObject s d =
     (let s1 = createObjectFromData d s
      in (case d_trackTarget d of
            Some t \<Rightarrow>
              if t \<noteq> 0
              then s1\<lparr>cameraTrackTargets := AList.update (d_id d) t (cameraTrackTargets s1)\<rparr>
              else s1
          | None \<Rightarrow> s1))"

text \<open>
  The loop of \<open>restoreState\<close> over the elements of \<open>state.objects\<close>. An element on which
  \<open>createObjectFromData\<close> throws (\<open>null\<close>, whose \<open>type\<close> cannot be read, or a record of a
  known type without a \<open>position\<close>, \<open>rotation\<close> or \<open>scale\<close> array) is \<open>None\<close>: the loop
  stops there, with the objects restored so far. The boolean tells whether the loop ran
  to its end.
\<close>

fun restoreObjects :: "editor \<Rightarrow> serialized option list \<Rightarrow> editor \<times> bool" where
  "restoreObjects s [] = (s, True)"
| "restoreObjects s (None # ds) = (s, False)"
| "restoreObjects s (Some d # ds) = restoreObjects (restoreObject s d) ds"

text \<open>
  \<open>restoreState (state)\<close>, given \<open>state.objects\<close> and \<open>state.clips\<close> (\<open>None\<close> when the
  property is missing). When \<open>state.objects\<close> is missing, \<open>state.objects.forEach\<close> throws
  after the scene has been cleared; when an element makes the loop throw, the clips and
  the counter are not written either. In both cases the result is the editor as the
  exception leaves it (nothing follows the call in any caller). \<open>Math.max (0, ...ids)\<close>
  is the counter after a loop that ran to its end.
\<close>

definition restoreState ::
  "serialized option list option \<Rightarrow> (int \<rightharpoonup> clip) option \<Rightarrow> editor \<Rightarrow> editor" where
  "restoreState stateObjects stateClips s =
     (let s1 = (deselectAll s)\<lparr>objects := [], sceneCameras := [], cameraTrackTargets := []\<rparr>
      in (case stateObjects of
            None \<Rightarrow> s1
          | Some ds \<Rightarrow>
              (case restoreObjects s1 ds of
                 (s2, False) \<Rightarrow> s2
               | (s2, True) \<Rightarrow>
                   s2\<lparr>clips := (case stateClips of Some c \<Rightarrow> c | None \<Rightarrow> Map.empty),
                      objectIdCounter := Max (set (0 # map obj_id (objects s2)))\<rparr>)))"

text \<open>
  \<open>undo\<close> and \<open>redo\<close> restore a snapshot that \<open>saveState\<close> wrote: all its records are
  well-formed.
\<close>

definition undo :: "editor \<Rightarrow> editor" where
  "undo s =
     (if length (undoStack s) \<le> 1 then s
      else
        (let current = last (undoStack s);
             s1 = s\<lparr>undoStack := butlast (undoStack s), redoStack := redoStack s @ [current]\<rparr>;
             prev = last (undoStack s1)
         in restoreState (Some (map Some (snap_objects prev))) (Some (snap_clips prev)) s1))"

definition redo :: "editor \<Rightarrow> editor" where
  "redo s =
     (if length (redoStack s) = 0 then s
      else
        (let state = last (redoStack s);
             s1 = s\<lparr>redoStack := butlast (redoStack s), undoStack := undoStack s @ [state]\<rparr>
         in restoreState (Some (map Some (snap_objects state))) (Some (snap_clips state)) s1))"

section \<open>Copy, paste and the object operations\<close>

definition copy :: "editor \<Rightarrow> editor" where
  "copy s =
     (if length (selectedObjects s) = 0 then s
      else s\<lparr>clipboard :=
               Some (List.map_filter (\<lambda>r. map_option (serializeObject s) (deref s r))
                       (selectedObjects s))\<rparr>)"

text \<open>
  \<open>++this.objectIdCounter\<close> on a double that holds an integer: exact from -2^53 up to
  2^53 - 1 (2^53 is 9007199254740992); beyond, the sum is rounded to the nearest double,
  ties to the even mantissa, so the counter stays where it is or moves by 2.
\<close>

definition jsIncrement :: "int \<Rightarrow> int" where
  "jsIncrement x =
     (if - 9007199254740992 \<le> x \<and> x < 9007199254740992 then x + 1
      else if 9007199254740992 \<le> x \<and> x < 18014398509481984 \<and> x mod 4 = 2 then x + 2
      else if - 18014398509481984 < x \<and> x < - 9007199254740992 \<and> x mod 4 = 2 then x + 2
      else x)"

text \<open>The body of the loop of \<open>paste\<close>.\<close>

definition pasteOne :: "editor \<Rightarrow> serialized \<Rightarrow> editor" where
  "pasteOne s d =
     (let n = jsIncrement (objectIdCounter s);
          s1 = s\<lparr>objectIdCounter := n\<rparr>;
          newData = d\<lparr>d_id := n, d_name := d_name d @ ''_paste'',
                      d_position := (case d_position d of (x, y, z) \<Rightarrow> (x + 0.5, y, z + 0.5))\<rparr>;
          s2 = createObjectFromData newData s1
      in (case find (\<lambda>ob. obj_id ob = n) (objects s2) of
            Some newObj \<Rightarrow> addToSelection (ref newObj) s2
          | None \<Rightarrow> s2))"

text \<open>\<open>if (!this.clipboard) return\<close>: only \<open>null\<close> is falsy, an empty array is not.\<close>

definition paste :: "editor \<Rightarrow> editor" where
  "paste s =
     (case clipboard s of
        None \<Rightarrow> s
      | Some cb \<Rightarrow> saveState (foldl pasteOne (deselectAll s) cb))"

text \<open>
  Decimal digits of a number, for the template literals that name new objects (a number
  from 10^21 on is printed with an exponent by the code; names play no part below).
\<close>

fun showNat :: "nat \<Rightarrow> string" where
  "showNat n =
     (if n < 10 then [''0123456789'' ! n]
      else showNat (n div 10) @ [''0123456789'' ! (n mod 10)])"

declare showNat.simps [simp del]

definition showInt :: "int \<Rightarrow> string" where
  "showInt i = (if i < 0 then CHR ''-'' # showNat (nat (- i)) else showNat (nat i))"

text \<open>
  The common shape of \<open>addQuad\<close>, \<open>addCube\<close> and \<open>addCamera\<close>: take the next id, build
  the object with its initial transform, push it, select it alone, save.
\<close>

definition addObject :: "string \<Rightarrow> string \<Rightarrow> vec3 \<Rightarrow> vec3 \<Rightarrow> editor \<Rightarrow> editor" where
  "addObject prefix ty pos rot s =
     (let n = jsIncrement (objectIdCounter s);
          objData = \<lparr>ref = nextRef s, obj_id = n, obj_name = prefix @ showInt n, obj_type = ty,
                     position = pos, rotation = rot, scale = (1, 1, 1)\<rparr>;
          s1 = s\<lparr>objectIdCounter := n, objects := objects s @ [objData],
                 sceneCameras := (if ty = ''camera'' then sceneCameras s @ [nextRef s]
                                  else sceneCameras s),
                 nextRef := Suc (nextRef s)\<rparr>
      in saveState (selectObject (ref objData) False s1))"

definition addQuad :: "editor \<Rightarrow> editor" where
  "addQuad = addObject ''Quad_'' ''quad'' (0, 0, 0) (- pi / 2, 0, 0)"

definition addCube :: "editor \<Rightarrow> editor" where
  "addCube = addObject ''Cube_'' ''cube'' (0, 0.5, 0) (0, 0, 0)"

text \<open>
  \<open>mesh.lookAt\<close> belongs to the rendering library, which is not part of the source: the
  rotation it gives a mesh at one position facing another is the parameter \<open>lookAt\<close>.
\<close>

definition addCamera :: "(vec3 \<Rightarrow> vec3 \<Rightarrow> vec3) \<Rightarrow> editor \<Rightarrow> editor" where
  "addCamera lookAt = addObject ''Camera_'' ''camera'' (2, 2, 2) (lookAt (2, 2, 2) (0, 0, 0))"

text \<open>The body of the loop of \<open>duplicateSelected\<close>, for the selected object of reference \<open>r\<close>.\<close>

definition duplicateOne :: "editor \<Rightarrow> nat \<Rightarrow> editor" where
  "duplicateOne s r =
     (case deref s r of
        None \<Rightarrow> s
      | Some orig \<Rightarrow>
          (let n = jsIncrement (objectIdCounter s);
               s1 = s\<lparr>objectIdCounter := n\<rparr>;
               d = (serializeObject s orig)
                     \<lparr>d_id := n, d_name := obj_name orig @ ''_copy'',
                      d_position := (case position orig of (x, y, z) \<Rightarrow> (x + 1, y, z))\<rparr>;
               s2 = createObjectFromData d s1
           in (case find (\<lambda>ob. obj_id ob = n) (objects s2) of
                 Some newObj \<Rightarrow> addToSelection (ref newObj) s2
               | None \<Rightarrow> s2)))"

definition duplicateSelected :: "editor \<Rightarrow> editor" where
  "duplicateSelected s =
     (if length (selectedObjects s) = 0 then s
      else saveState (foldl duplicateOne (deselectAll s) (selectedObjects s)))"

text \<open>
  The body of the loop of \<open>deleteSelected\<close>: the object leaves \<open>objects\<close> and
  \<open>sceneCameras\<close>, and the clip under its id is deleted. Nothing else is touched.
\<close>

definition deleteOne :: "editor \<Rightarrow> nat \<Rightarrow> editor" where
  "deleteOne s r =
     s\<lparr>objects := filter (\<lambda>ob. ref ob \<noteq> r) (objects s),
       sceneCameras := filter (\<lambda>c. c \<noteq> r) (sceneCameras s),
       clips := (case deref s r of
                   Some obj \<Rightarrow> (clips s)(obj_id obj := None)
                 | None \<Rightarrow> clips s)\<rparr>"

definition deleteSelected :: "editor \<Rightarrow> editor" where
  "deleteSelected s =
     (if length (selectedObjects s) = 0 then s
      else saveState (deselectAll (foldl deleteOne s (selectedObjects s))))"

text \<open>A write to the fields of the object of reference \<open>r\<close>.\<close>

definition updateObject :: "nat \<Rightarrow> (objData \<Rightarrow> objData) \<Rightarrow> editor \<Rightarrow> editor" where
  "updateObject r g s = s\<lparr>objects := map (\<lambda>ob. if ref ob = r then g ob else ob) (objects s)\<rparr>"

definition renameObject :: "nat \<Rightarrow> string \<Rightarrow> editor \<Rightarrow> editor" where
  "renameObject r newName s = saveState (updateObject r (\<lambda>ob. ob\<lparr>obj_name := newName\<rparr>) s)"

section \<open>Keyframes and playback\<close>

text \<open>
  One track of \<open>addKeyframe\<close>: a missing track starts empty, the keyframe at the
  current frame is filtered out, the new one is pushed, the track is sorted by frame
  (\<open>Array.prototype.sort\<close> is stable, as is \<open>sort_key\<close>).
\<close>

definition keyTrack :: "int \<Rightarrow> vec3 \<Rightarrow> keyframe list option \<Rightarrow> keyframe list" where
  "keyTrack f v track =
     sort_key kf_frame
       (filter (\<lambda>k. kf_frame k \<noteq> f) (case track of Some ks \<Rightarrow> ks | None \<Rightarrow> [])
        @ [\<lparr>kf_frame = f, kf_value = v\<rparr>])"

text \<open>The body of the loop of \<open>addKeyframe\<close>, for the selected object of reference \<open>r\<close>.\<close>

definition addKeyframeOne :: "editor \<Rightarrow> nat \<Rightarrow> editor" where
  "addKeyframeOne s r =
     (case deref s r of
        None \<Rightarrow> s
      | Some obj \<Rightarrow>
          if obj_type obj \<noteq> ''camera'' then s
          else
            (let c = (case clips s (obj_id obj) of
                        Some c \<Rightarrow> c
                      | None \<Rightarrow> \<lparr>clip_position = None, clip_rotation = None\<rparr>);
                 c' = \<lparr>clip_position = Some (keyTrack (currentFrame s) (position obj) (clip_position c)),
                       clip_rotation = Some (keyTrack (currentFrame s) (rotation obj) (clip_rotation c))\<rparr>
             in s\<lparr>clips := (clips s)(obj_id obj \<mapsto> c')\<rparr>))"

definition addKeyframe :: "editor \<Rightarrow> editor" where
  "addKeyframe s = saveState (foldl addKeyframeOne s (selectedObjects s))"

text \<open>
  The body of the loop of \<open>applyFrame\<close>, for the scene camera of reference \<open>r\<close>. An
  interpolation that is not finite (\<open>None\<close>) writes nothing in the model.
\<close>

definition applyFrameOne :: "editor \<Rightarrow> nat \<Rightarrow> editor" where
  "applyFrameOne s r =
     (case deref s r of
        None \<Rightarrow> s
      | Some cam \<Rightarrow>
          (case clips s (obj_id cam) of
             None \<Rightarrow> s
           | Some camClips \<Rightarrow>
               (let s1 = (case clip_position camClips of
                            Some ks \<Rightarrow>
                              if length ks > 0 then
                                (case interpolateKeyframes ks (currentFrame s) of
                                   Some pos \<Rightarrow> updateObject r (\<lambda>ob. ob\<lparr>position := pos\<rparr>) s
                                 | None \<Rightarrow> s)
                              else s
                          | None \<Rightarrow> s)
                in (case clip_rotation camClips of
                      Some ks \<Rightarrow>
                        if length ks > 0 then
                          (case interpolateKeyframes ks (currentFrame s) of
                             Some rot \<Rightarrow> updateObject r (\<lambda>ob. ob\<lparr>rotation := rot\<rparr>) s1
                           | None \<Rightarrow> s1)
                        else s1
                    | None \<Rightarrow> s1))))"

definition applyFrame :: "editor \<Rightarrow> editor" where
  "applyFrame s = foldl applyFrameOne s (sceneCameras s)"

definition togglePlay :: "editor \<Rightarrow> editor" where
  "togglePlay s = s\<lparr>isPlaying := \<not> isPlaying s\<rparr>"

definition stopPlayback :: "editor \<Rightarrow> editor" where
  "stopPlayback s = applyFrame (s\<lparr>isPlaying := False, currentFrame := 0\<rparr>)"

text \<open>The position track of the scene camera of reference \<open>r\<close>, empty when there is none.\<close>

definition positionTrack :: "editor \<Rightarrow> nat \<Rightarrow> keyframe list" where
  "positionTrack s r =
     (case deref s r of
        None \<Rightarrow> []
      | Some cam \<Rightarrow>
          (case clips s (obj_id cam) of
             None \<Rightarrow> []
           | Some camClips \<Rightarrow> (case clip_position camClips of Some ks \<Rightarrow> ks | None \<Rightarrow> [])))"

definition prevKeyframe :: "editor \<Rightarrow> editor" where
  "prevKeyframe s =
     (let prevFrame =
            foldl (\<lambda>p r. foldl (\<lambda>p kf. if kf_frame kf < currentFrame s \<and> kf_frame kf > p
                                        then kf_frame kf else p) p (positionTrack s r))
              0 (sceneCameras s)
      in applyFrame (s\<lparr>currentFrame := prevFrame\<rparr>))"

definition nextKeyframe :: "editor \<Rightarrow> editor" where
  "nextKeyframe s =
     (let nextFrame =
            foldl (\<lambda>n r. foldl (\<lambda>n kf. if kf_frame kf > currentFrame s \<and> kf_frame kf < n
                                        then kf_frame kf else n) n (positionTrack s r))
              (totalFrames s) (sceneCameras s)
      in applyFrame (s\<lparr>currentFrame := nextFrame\<rparr>))"

text \<open>Seeking: the timeline click and the arrow, Home and End keys set the frame and apply it.\<close>

definition seekFrame :: "int \<Rightarrow> editor \<Rightarrow> editor" where
  "seekFrame f s = applyFrame (s\<lparr>currentFrame := f\<rparr>)"

section \<open>Camera tracking\<close>

text \<open>\<open>if (targetId)\<close>: null and 0 clear the binding.\<close>

definition setCameraTrackTarget :: "int \<Rightarrow> int option \<Rightarrow> editor \<Rightarrow> editor" where
  "setCameraTrackTarget cameraId targetId s =
     saveState
       (case targetId of
          Some t \<Rightarrow>
            if t \<noteq> 0 then s\<lparr>cameraTrackTargets := AList.update cameraId t (cameraTrackTargets s)\<rparr>
            else s\<lparr>cameraTrackTargets := AList.delete cameraId (cameraTrackTargets s)\<rparr>
        | None \<Rightarrow> s\<lparr>cameraTrackTargets := AList.delete cameraId (cameraTrackTargets s)\<rparr>)"

text \<open>
  The two \<open>find\<close> calls of \<open>updateCameraTracking\<close> for one binding, and the guard
  \<open>if (cam && target)\<close>: the pair of objects that the binding reads, if both are found.
\<close>

definition lookupBinding :: "objData list \<Rightarrow> int \<times> int \<Rightarrow> (objData \<times> objData) option" where
  "lookupBinding objs b =
     (case (find (\<lambda>ob. obj_id ob = fst b) objs, find (\<lambda>ob. obj_id ob = snd b) objs) of
        (Some cam, Some target) \<Rightarrow> Some (cam, target)
      | _ \<Rightarrow> None)"

text \<open>The pairs (camera, target) on which one tick calls \<open>lookAt\<close>.\<close>

definition trackingPairs :: "editor \<Rightarrow> (objData \<times> objData) list" where
  "trackingPairs s = List.map_filter (lookupBinding (objects s)) (cameraTrackTargets s)"

definition updateCameraTracking :: "(vec3 \<Rightarrow> vec3 \<Rightarrow> vec3) \<Rightarrow> editor \<Rightarrow> editor" where
  "updateCameraTracking lookAt s =
     foldl (\<lambda>t b. case lookupBinding (objects t) b of
                     Some (cam, target) \<Rightarrow>
                       updateObject (ref cam)
                         (\<lambda>ob. ob\<lparr>rotation := lookAt (position cam) (position target)\<rparr>) t
                   | None \<Rightarrow> t)
       s (cameraTrackTargets s)"

text \<open>
  The change handler of the camera selector: \<open>parseInt\<close> of the chosen value (\<open>None\<close>
  for NaN, the "No Camera" entry), then the first scene camera with that id, or null.
\<close>

definition selectCamera :: "int option \<Rightarrow> editor \<Rightarrow> editor" where
  "selectCamera camId s =
     s\<lparr>activeSceneCamera :=
         (case camId of
            None \<Rightarrow> None
          | Some i \<Rightarrow>
              find (\<lambda>r. case deref s r of Some cam \<Rightarrow> obj_id cam = i | None \<Rightarrow> False)
                (sceneCameras s))\<rparr>"

text \<open>
  \<open>renderCameraPreview\<close> writes no field of the editor. It reads the mesh of the object
  that \<open>activeSceneCamera\<close> refers to, whether or not that object is still in the scene:
  \<open>previewRead\<close> is the reference it reads, \<open>None\<close> when it returns at once.
\<close>

definition previewRead :: "editor \<Rightarrow> nat option" where
  "previewRead s = activeSceneCamera s"

text \<open>
  One call of \<open>animate\<close>: playback, then tracking; rendering and the camera preview
  change no field.
\<close>

definition animate :: "(vec3 \<Rightarrow> vec3 \<Rightarrow> vec3) \<Rightarrow> editor \<Rightarrow> editor" where
  "animate lookAt s =
     updateCameraTracking lookAt
       (if isPlaying s then
          (let f = currentFrame s + 1
           in applyFrame (s\<lparr>currentFrame := (if f \<ge> totalFrames s then 0 else f)\<rparr>))
        else s)"

section \<open>Transform edits, grid plane, load\<close>

datatype transformProp = Position | Rotation | Scale

datatype axis = AxisX | AxisY | AxisZ

fun setAxis :: "axis \<Rightarrow> real \<Rightarrow> vec3 \<Rightarrow> vec3" where
  "setAxis AxisX v (x, y, z) = (v, y, z)"
| "setAxis AxisY v (x, y, z) = (x, v, z)"
| "setAxis AxisZ v (x, y, z) = (x, y, v)"

text \<open>\<open>o.mesh[prop][axis] = val\<close>, with degrees turned into radians for a rotation.\<close>

fun setField :: "transformProp \<Rightarrow> axis \<Rightarrow> real \<Rightarrow> objData \<Rightarrow> objData" where
  "setField Position ax v ob = ob\<lparr>position := setAxis ax v (position ob)\<rparr>"
| "setField Rotation ax v ob = ob\<lparr>rotation := setAxis ax (v * (pi / 180)) (rotation ob)\<rparr>"
| "setField Scale ax v ob = ob\<lparr>scale := setAxis ax v (scale ob)\<rparr>"

text \<open>The change handler of a field of the transform panel.\<close>

definition editTransform :: "transformProp \<Rightarrow> axis \<Rightarrow> real \<Rightarrow> editor \<Rightarrow> editor" where
  "editTransform p ax v s =
     saveState (foldl (\<lambda>t r. updateObject r (setField p ax v) t) s (selectedObjects s))"

text \<open>
  The transform gizmo is an external control: it writes the transform of the mesh it is
  attached to, and its \<open>mouseUp\<close> handler calls \<open>saveState\<close>.
\<close>

definition gizmoRelease :: "nat \<Rightarrow> vec3 \<Rightarrow> vec3 \<Rightarrow> vec3 \<Rightarrow> editor \<Rightarrow> editor" where
  "gizmoRelease r pos rot sc s =
     saveState (updateObject r (\<lambda>ob. ob\<lparr>position := pos, rotation := rot, scale := sc\<rparr>) s)"

text \<open>
  The keys under which \<open>this.grids[plane]\<close> is truthy: xz, xy and yz (\<open>createGrids\<close>),
  and the properties that the plain object \<open>this.grids\<close> inherits from
  \<open>Object.prototype\<close>. (The write of \<open>visible\<close> through the key \<open>__proto__\<close> lands
  on \<open>Object.prototype\<close> itself; the model does not follow what that does to later
  calls.)
\<close>

definition gridsKeys :: "string list" where
  "gridsKeys =
     [''xz'', ''xy'', ''yz'', ''constructor'', ''hasOwnProperty'', ''isPrototypeOf'',
      ''propertyIsEnumerable'', ''toLocaleString'', ''toString'', ''valueOf'', ''__proto__'',
      ''__defineGetter__'', ''__defineSetter__'', ''__lookupGetter__'', ''__lookupSetter__'']"

definition setGridPlane :: "string \<Rightarrow> editor \<Rightarrow> editor" where
  "setGridPlane plane s =
     (if plane \<in> set gridsKeys then s\<lparr>currentGridPlane := plane\<rparr> else s)"

text \<open>
  What \<open>JSON.parse\<close> gives \<open>load\<close>, as far as \<open>load\<close> and \<open>restoreState\<close> read it; each
  property may be missing. The grid plane is a string, the frame count and the ids are
  integers; an element of \<open>objects\<close> is a record, or \<open>None\<close> when
  \<open>createObjectFromData\<close> throws on it.
\<close>

record fileData =
  f_gridPlane :: "string option"
  f_totalFrames :: "int option"
  f_objects :: "serialized option list option"
  f_clips :: "(int \<rightharpoonup> clip) option"

text \<open>
  The result of \<open>JSON.parse\<close>: it throws, or gives \<open>null\<close>, or gives a value whose
  properties can be read (a value that is not an object reads like one with every
  property missing).
\<close>

datatype parseResult = Unparsable | JsonNull | Document fileData

text \<open>
  The \<open>onload\<close> handler of \<open>load\<close>, given the result of \<open>JSON.parse\<close>. The \<open>catch\<close>
  only logs, so an exception leaves the editor as it was when it was thrown: reading
  \<open>data.gridPlane\<close> of \<open>null\<close> throws before anything is written.
  \<open>if (data.gridPlane)\<close> and \<open>if (data.totalFrames)\<close> test truthiness.
\<close>

definition load :: "parseResult \<Rightarrow> editor \<Rightarrow> editor" where
  "load parsed s =
     (case parsed of
        Unparsable \<Rightarrow> s
      | JsonNull \<Rightarrow> s
      | Document data \<Rightarrow>
          (let s1 = (case f_gridPlane data of
                       Some g \<Rightarrow> if g \<noteq> [] then setGridPlane g s else s
                     | None \<Rightarrow> s);
               s2 = (case f_totalFrames data of
                       Some n \<Rightarrow> if n \<noteq> 0 then s1\<lparr>totalFrames := n\<rparr> else s1
                     | None \<Rightarrow> s1)
           in restoreState (f_objects data) (f_clips data) s2))"

section \<open>The editor as a state machine\<close>

text \<open>
  The editor right after \<open>new MeshEditor()\<close>: the constructor's field values (with the
  default theme: 300 frames, undo limit 50), then \<open>init\<close>, which sets the default grid
  plane, adds the initial quad and saves once more.
\<close>

definition constructed :: editor where
  "constructed =
     \<lparr>objects = [], selectedObjects = [], clipboard = None, undoStack = [], redoStack = [],
      objectIdCounter = 0, currentGridPlane = ''xz'', sceneCameras = [],
      activeSceneCamera = None, currentFrame = 0, totalFrames = 300, isPlaying = False,
      clips = Map.empty, cameraTrackTargets = [], undoLimit = 50, nextRef = 0\<rparr>"

definition init :: editor where
  "init = saveState (addQuad (setGridPlane ''xz'' constructed))"

text \<open>
  The commands of the user interface (toolbar, keys, clicks, panels) and the render tick.
  A click selects an object that is in the scene; the boolean is the Shift key.
\<close>

datatype command =
    AddQuad | AddCube | AddCamera
  | Copy | Paste | DuplicateSelected | DeleteSelected
  | RenameObject nat string
  | SelectObject nat bool | ClickEmpty bool | SelectAll
  | Undo | Redo
  | AddKeyframe | TogglePlay | StopPlayback | PrevKeyframe | NextKeyframe
  | TimelineClick int | ArrowLeft bool | ArrowRight bool | KeyHome | KeyEnd
  | SetCameraTrackTarget int "int option"
  | SelectCamera "int option"
  | EditTransform transformProp axis real
  | GizmoRelease nat vec3 vec3 vec3
  | SetGridPlane string
  | Load parseResult
  | Animate

fun exec :: "(vec3 \<Rightarrow> vec3 \<Rightarrow> vec3) \<Rightarrow> command \<Rightarrow> editor \<Rightarrow> editor" where
  "exec lookAt AddQuad s = addQuad s"
| "exec lookAt AddCube s = addCube s"
| "exec lookAt AddCamera s = addCamera lookAt s"
| "exec lookAt Copy s = copy s"
| "exec lookAt Paste s = paste s"
| "exec lookAt DuplicateSelected s = duplicateSelected s"
| "exec lookAt DeleteSelected s = deleteSelected s"
| "exec lookAt (RenameObject r newName) s = renameObject r newName s"
| "exec lookAt (SelectObject r shift) s =
     (if r \<in> ref ` set (objects s) then selectObject r shift s else s)"
| "exec lookAt (ClickEmpty shift) s = (if \<not> shift then deselectAll s else s)"
| "exec lookAt SelectAll s = selectAll s"
| "exec lookAt Undo s = undo s"
| "exec lookAt Redo s = redo s"
| "exec lookAt AddKeyframe s = addKeyframe s"
| "exec lookAt TogglePlay s = togglePlay s"
| "exec lookAt StopPlayback s = stopPlayback s"
| "exec lookAt PrevKeyframe s = prevKeyframe s"
| "exec lookAt NextKeyframe s = nextKeyframe s"
| "exec lookAt (TimelineClick f) s = seekFrame f s"
| "exec lookAt (ArrowLeft shift) s =
     seekFrame (max 0 (currentFrame s - (if shift then 10 else 1))) s"
| "exec lookAt (ArrowRight shift) s =
     seekFrame (min (totalFrames s) (currentFrame s + (if shift then 10 else 1))) s"
| "exec lookAt KeyHome s = seekFrame 0 s"
| "exec lookAt KeyEnd s = seekFrame (totalFrames s) s"
| "exec lookAt (SetCameraTrackTarget cameraId targetId) s =
     setCameraTrackTarget cameraId targetId s"
| "exec lookAt (SelectCamera camId) s = selectCamera camId s"
| "exec lookAt (EditTransform p ax v) s = editTransform p ax v s"
| "exec lookAt (GizmoRelease r pos rot sc) s = gizmoRelease r pos rot sc s"
| "exec lookAt (SetGridPlane plane) s = setGridPlane plane s"
| "exec lookAt (Load parsed) s = load parsed s"
| "exec lookAt Animate s = animate lookAt s"

text \<open>The editors that a session can be in: \<open>init\<close> and what commands make of it.\<close>

inductive reachable :: "(vec3 \<Rightarrow> vec3 \<Rightarrow> vec3) \<Rightarrow> editor \<Rightarrow> bool"
  for lookAt :: "vec3 \<Rightarrow> vec3 \<Rightarrow> vec3" where
  reachable_init: "reachable lookAt init"
| reachable_step: "reachable lookAt s \<Longrightarrow> reachable lookAt (exec lookAt c s)"

section \<open>Notions used in the statements and proofs\<close>

text \<open>
  The variables \<open>before\<close> and \<open>after\<close> of \<open>interpolateKeyframes\<close> after its loop, for a
  track of two keyframes or more.
\<close>

definition chosenPair :: "keyframe list \<Rightarrow> int \<Rightarrow> keyframe \<times> keyframe" where
  "chosenPair ks f = (case findBracket ks f of Some p \<Rightarrow> p | None \<Rightarrow> (hd ks, last ks))"

text \<open>The types for which \<open>createObjectFromData\<close> builds a mesh.\<close>

definition knownType :: "string \<Rightarrow> bool" where
  "knownType ty \<longleftrightarrow> ty = ''quad'' \<or> ty = ''cube'' \<or> ty = ''camera''"

text \<open>
  What every snapshot taken by \<open>saveState\<close> satisfies: its records have known types,
  no record carries the falsy target 0, and records with one id carry one target.
\<close>

definition wf_snapshot :: "snapshot \<Rightarrow> bool" where
  "wf_snapshot p \<longleftrightarrow>
     (\<forall>d\<in>set (snap_objects p). knownType (d_type d) \<and> d_trackTarget d \<noteq> Some 0)
     \<and> (\<forall>d\<in>set (snap_objects p). \<forall>d'\<in>set (snap_objects p).
           d_id d = d_id d' \<longrightarrow> d_trackTarget d = d_trackTarget d')"

text \<open>
  References are those of allocated objects and identify the live objects; the selection
  holds live objects, each once; live objects have known types.
\<close>

definition heap_inv :: "editor \<Rightarrow> bool" where
  "heap_inv s \<longleftrightarrow>
     distinct (map ref (objects s))
     \<and> (\<forall>ob\<in>set (objects s). ref ob < nextRef s)
     \<and> set (selectedObjects s) \<subseteq> ref ` set (objects s)
     \<and> distinct (selectedObjects s)
     \<and> (\<forall>ob\<in>set (objects s). knownType (obj_type ob))"

text \<open>No live object has an id above the counter.\<close>

definition ids_inv :: "editor \<Rightarrow> bool" where
  "ids_inv s \<longleftrightarrow> (\<forall>ob\<in>set (objects s). obj_id ob \<le> objectIdCounter s)"

text \<open>
  The history: every entry is a snapshot as \<open>saveState\<close> takes them, the undo stack is
  never empty, both stacks together stay within the limit, which is at least 2.
\<close>

definition history_inv :: "editor \<Rightarrow> bool" where
  "history_inv s \<longleftrightarrow>
     (\<forall>p\<in>set (undoStack s) \<union> set (redoStack s). wf_snapshot p)
     \<and> undoStack s \<noteq> []
     \<and> length (undoStack s) + length (redoStack s) \<le> undoLimit s
     \<and> 2 \<le> undoLimit s"

text \<open>What every command keeps, whatever file is loaded.\<close>

definition editor_inv :: "editor \<Rightarrow> bool" where
  "editor_inv s \<longleftrightarrow> heap_inv s \<and> history_inv s"

text \<open>The next \<open>k\<close> increments of the id counter are exact.\<close>

definition counterExact :: "editor \<Rightarrow> nat \<Rightarrow> bool" where
  "counterExact s k \<longleftrightarrow>
     - 9007199254740992 \<le> objectIdCounter s
     \<and> objectIdCounter s + int k \<le> 9007199254740992"

text \<open>
  A command other than a load whose loop over the records is cut short by an exception
  (such a load leaves the counter as it was, below the objects it did restore).
\<close>

fun completes :: "command \<Rightarrow> bool" where
  "completes (Load (Document d)) =
     (case f_objects d of Some ds \<Rightarrow> None \<notin> set ds | None \<Rightarrow> True)"
| "completes c = True"

text \<open>
  A run of committed mutations: each mutation is followed by \<open>saveState\<close>. \<open>committed\<close>
  lists the snapshots that the run pushes, oldest first. A mutation as such leaves the
  history alone (\<open>keepsHistory\<close>).
\<close>

fun commits :: "(editor \<Rightarrow> editor) list \<Rightarrow> editor \<Rightarrow> editor" where
  "commits [] s = s"
| "commits (m # ms) s = commits ms (saveState (m s))"

fun committed :: "(editor \<Rightarrow> editor) list \<Rightarrow> editor \<Rightarrow> snapshot list" where
  "committed [] s = []"
| "committed (m # ms) s = currentSnapshot (m s) # committed ms (saveState (m s))"

definition keepsHistory :: "(editor \<Rightarrow> editor) \<Rightarrow> bool" where
  "keepsHistory m \<longleftrightarrow> (\<forall>t. undoStack (m t) = undoStack t \<and> undoLimit (m t) = undoLimit t)"

text \<open>The initial quad and the snapshot of the initial scene.\<close>

definition quad1 :: objData where
  "quad1 = \<lparr>ref = 0, obj_id = 1, obj_name = ''Quad_1'', obj_type = ''quad'',
            position = (0, 0, 0), rotation = (- pi / 2, 0, 0), scale = (1, 1, 1)\<rparr>"

definition snap1 :: snapshot where
  "snap1 =
     \<lparr>snap_objects =
        [\<lparr>d_id = 1, d_name = ''Quad_1'', d_type = ''quad'', d_position = (0, 0, 0),
          d_rotation = (- pi / 2, 0, 0), d_scale = (1, 1, 1), d_trackTarget = None\<rparr>],
      snap_clips = Map.empty\<rparr>"

text \<open>
  Two editors with the same objects up to names and transforms, and the same selection,
  counters and history: what playback, tracking and transform edits preserve.
\<close>

definition sameShape :: "editor \<Rightarrow> editor \<Rightarrow> bool" where
  "sameShape s t \<longleftrightarrow>
     map ref (objects t) = map ref (objects s)
     \<and> map obj_id (objects t) = map obj_id (objects s)
     \<and> map obj_type (objects t) = map obj_type (objects s)
     \<and> selectedObjects t = selectedObjects s
     \<and> nextRef t = nextRef s
     \<and> objectIdCounter t = objectIdCounter s
     \<and> undoStack t = undoStack s
     \<and> redoStack t = redoStack s
     \<and> undoLimit t = undoLimit s"

text \<open>
  An operation from \<open>s\<close> to \<open>s'\<close> that only appends objects, whose ids lie above the
  counter of \<open>s\<close>, within the counter of \<open>s'\<close>, and increase in the order of creation.
\<close>

definition freshIds :: "editor \<Rightarrow> editor \<Rightarrow> bool" where
  "freshIds s s' \<longleftrightarrow>
     take (length (objects s)) (objects s') = objects s
     \<and> sorted_wrt (<) (map obj_id (drop (length (objects s)) (objects s')))
     \<and> (\<forall>n\<in>set (drop (length (objects s)) (objects s')).
           objectIdCounter s < obj_id n \<and> obj_id n \<le> objectIdCounter s')
     \<and> objectIdCounter s \<le> objectIdCounter s'"

text \<open>
  A scene read from a file: a camera (id 1) that tracks a cube (id 2), loaded into the
  initial editor, with the cube then clicked.
\<close>

definition trackedFile :: fileData where
  "trackedFile =
     \<lparr>f_gridPlane = None, f_totalFrames = None,
      f_objects = Some
        [Some \<lparr>d_id = 1, d_name = ''Camera_1'', d_type = ''camera'', d_position = (2, 2, 2),
          d_rotation = (0, 0, 0), d_scale = (1, 1, 1), d_trackTarget = Some 2\<rparr>,
         Some \<lparr>d_id = 2, d_name = ''Cube_2'', d_type = ''cube'', d_position = (0, 0.5, 0),
          d_rotation = (0, 0, 0), d_scale = (1, 1, 1), d_trackTarget = None\<rparr>],
      f_clips = None\<rparr>"

definition trackedScene :: editor where
  "trackedScene = selectObject 2 False (load (Document trackedFile) init)"

text \<open>
  A file whose second element is \<open>null\<close>: the loop of \<open>restoreState\<close> restores the cube
  and throws.
\<close>

definition cutShortFile :: fileData where
  "cutShortFile =
     \<lparr>f_gridPlane = None, f_totalFrames = None,
      f_objects = Some
        [Some \<lparr>d_id = 2, d_name = ''Cube_2'', d_type = ''cube'', d_position = (0, 0.5, 0),
          d_rotation = (0, 0, 0), d_scale = (1, 1, 1), d_trackTarget = None\<rparr>,
         None],
      f_clips = None\<rparr>"

text \<open>
  The tracked scene with the camera chosen in the camera selector and then clicked.
\<close>

definition previewScene :: editor where
  "previewScene = selectObject 1 False (selectCamera (Some 1) (load (Document trackedFile) init))"



section \<open>Interpolation of a track\<close>

lemma findBracket_skip:
  "\<forall>k\<in>set xs. kf_frame k < f \<Longrightarrow> kf_frame b < f \<Longrightarrow> f \<le> kf_frame a \<Longrightarrow>
   findBracket (xs @ b # a # ys) f = Some (b, a)"
proof (induction xs)
  case Nil
  then show ?case by simp
next
  case (Cons x xs)
  show ?case
  proof (cases xs)
    case Nil
    with Cons.prems show ?thesis by simp
  next
    case (Cons y zs)
    with Cons.prems Cons.IH show ?thesis by simp
  qed
qed

lemma findBracket_none_before:
  "sorted (map kf_frame ks) \<Longrightarrow> ks \<noteq> [] \<Longrightarrow> f < kf_frame (hd ks) \<Longrightarrow> findBracket ks f = None"
  by (induction ks f rule: findBracket.induct) auto

lemma findBracket_none_after:
  "\<forall>k\<in>set ks. kf_frame k < f \<Longrightarrow> findBracket ks f = None"
  by (induction ks f rule: findBracket.induct) auto

lemma findBracket_bounds:
  "findBracket ks f = Some (b, a) \<Longrightarrow> kf_frame b \<le> f \<and> f \<le> kf_frame a"
  by (induction ks f rule: findBracket.induct) (auto split: if_splits)

lemma lerp_inside:
  "kf_frame b < f \<Longrightarrow> f < kf_frame a \<Longrightarrow>
   lerp b a f =
     (case (kf_value b, kf_value a) of
        ((v0, v1, v2), (a0, a1, a2)) \<Rightarrow>
          Some (v0 + (a0 - v0) * (real_of_int (f - kf_frame b) / real_of_int (kf_frame a - kf_frame b)),
                v1 + (a1 - v1) * (real_of_int (f - kf_frame b) / real_of_int (kf_frame a - kf_frame b)),
                v2 + (a2 - v2) * (real_of_int (f - kf_frame b) / real_of_int (kf_frame a - kf_frame b))))"
  by (simp add: lerp_def Let_def)

lemma lerp_inside_Some: "kf_frame b < f \<Longrightarrow> f < kf_frame a \<Longrightarrow> lerp b a f \<noteq> None"
  by (simp add: lerp_inside split: prod.splits)

lemma interpolateKeyframes_multi:
  "2 \<le> length ks \<Longrightarrow>
   interpolateKeyframes ks f =
     (if f \<le> kf_frame (fst (chosenPair ks f)) then Some (kf_value (fst (chosenPair ks f)))
      else if f \<ge> kf_frame (snd (chosenPair ks f)) then Some (kf_value (snd (chosenPair ks f)))
      else lerp (fst (chosenPair ks f)) (snd (chosenPair ks f)) f)"
  by (cases ks; cases "tl ks")
     (auto simp: interpolateKeyframes_def chosenPair_def Let_def split: option.splits prod.splits)

lemma interpolate_never_nonfinite: "interpolateKeyframes ks f \<noteq> None"
proof (cases "2 \<le> length ks")
  case True
  then show ?thesis
    by (simp add: interpolateKeyframes_multi lerp_inside_Some del: not_None_eq)
next
  case False
  then show ?thesis
    by (cases ks; cases "tl ks") (simp_all add: interpolateKeyframes_def del: not_None_eq)
qed

lemma chosenPair_first:
  assumes "2 \<le> length ks" "sorted (map kf_frame ks)" "f \<le> kf_frame (hd ks)"
  shows "fst (chosenPair ks f) = hd ks"
proof (cases "f < kf_frame (hd ks)")
  case True
  with assms have "findBracket ks f = None"
    by (intro findBracket_none_before) auto
  then show ?thesis by (simp add: chosenPair_def)
next
  case False
  with assms have eq: "f = kf_frame (hd ks)" by simp
  from assms(1) obtain a b rest where ks: "ks = a # b # rest"
    by (cases ks; cases "tl ks") auto
  with assms(2) eq show ?thesis by (simp add: chosenPair_def)
qed

lemma interpolate_at_or_before_first:
  assumes "2 \<le> length ks" "sorted (map kf_frame ks)" "f \<le> kf_frame (hd ks)"
  shows "interpolateKeyframes ks f = Some (kf_value (hd ks))"
  using assms by (simp add: interpolateKeyframes_multi chosenPair_first)

lemma interpolate_after_last:
  assumes "2 \<le> length ks" "sorted (map kf_frame ks)" "kf_frame (last ks) < f"
  shows "interpolateKeyframes ks f = Some (kf_value (last ks))"
proof -
  from assms(1) have ne: "ks \<noteq> []" by auto
  have le: "kf_frame k \<le> kf_frame (last ks)" if "k \<in> set ks" for k
  proof -
    from that obtain i where i: "i < length ks" "ks ! i = k" by (auto simp: in_set_conv_nth)
    with assms(2) ne have "map kf_frame ks ! i \<le> map kf_frame ks ! (length ks - 1)"
      by (intro sorted_nth_mono) auto
    with i ne show ?thesis by (simp add: last_conv_nth)
  qed
  with assms(3) have "\<forall>k\<in>set ks. kf_frame k < f" by fastforce
  then have "findBracket ks f = None" by (rule findBracket_none_after)
  then have cp: "chosenPair ks f = (hd ks, last ks)" by (simp add: chosenPair_def)
  from le [of "hd ks"] ne assms(3) have "\<not> f \<le> kf_frame (hd ks)" by simp
  with assms cp show ?thesis by (simp add: interpolateKeyframes_multi)
qed

lemma interpolate_at_last_strict:
  assumes "2 \<le> length ks" "sorted_wrt (<) (map kf_frame ks)" "f = kf_frame (last ks)"
  shows "interpolateKeyframes ks f = Some (kf_value (last ks))"
proof -
  from assms(1) obtain zs a where zs: "ks = zs @ [a]"
    by (cases ks rule: rev_cases) auto
  with assms(1) obtain xs b where "zs = xs @ [b]"
    by (cases zs rule: rev_cases) auto
  with zs have ks: "ks = xs @ [b, a]" by simp
  with assms(2) have lt: "\<forall>k\<in>set xs. kf_frame k < kf_frame a" "kf_frame b < kf_frame a"
    by (auto simp: sorted_wrt_append)
  with assms(3) ks have "findBracket ks f = Some (b, a)"
    using findBracket_skip [of xs f b a "[]"] by simp
  with assms ks lt show ?thesis
    by (simp add: interpolateKeyframes_multi chosenPair_def)
qed

lemma interpolate_inside:
  assumes "sorted (map kf_frame (xs @ b # a # ys))" "kf_frame b < f" "f < kf_frame a"
  shows "interpolateKeyframes (xs @ b # a # ys) f = lerp b a f"
proof -
  from assms have "\<forall>k\<in>set xs. kf_frame k < f"
    by (fastforce simp: sorted_append)
  with assms have "findBracket (xs @ b # a # ys) f = Some (b, a)"
    by (intro findBracket_skip) auto
  with assms show ?thesis
    by (simp add: interpolateKeyframes_multi chosenPair_def)
qed

lemma interpolate_degenerate:
  assumes "findBracket ks f = Some (b, a)" "kf_frame b = kf_frame a"
  shows "interpolateKeyframes ks f = Some (kf_value b)"
proof -
  from assms(1) have "2 \<le> length ks"
    by (cases ks; cases "tl ks") auto
  moreover from findBracket_bounds [OF assms(1)] assms(2) have "f \<le> kf_frame b" by simp
  ultimately show ?thesis using assms(1)
    by (simp add: interpolateKeyframes_multi chosenPair_def)
qed


lemma interpolate_from_last_strict:
  assumes "2 \<le> length ks" "sorted_wrt (<) (map kf_frame ks)" "kf_frame (last ks) \<le> f"
  shows "interpolateKeyframes ks f = Some (kf_value (last ks))"
proof (cases "f = kf_frame (last ks)")
  case True
  with assms show ?thesis by (simp add: interpolate_at_last_strict)
next
  case False
  from assms(2) have "sorted (map kf_frame ks)"
    by (rule sorted_wrt_mono_rel [rotated]) simp
  with False assms show ?thesis by (simp add: interpolate_after_last)
qed

text \<open>
  Claim C4, as amended. An empty track evaluates to the zero vector and a track of one
  keyframe to that keyframe's value, at every frame. For a track of two keyframes or more
  whose frames ascend (equal frames allowed): a frame at or before the first keyframe
  gives the first value; a frame strictly after the last keyframe gives the last value;
  a frame strictly between two neighbouring keyframes gives, in each component,
  before + (after - before) * (frame - before.frame) / (after.frame - before.frame).
  A frame equal to the last keyframe's frame gives the last value when the frames ascend
  strictly. When the loop stops at a pair with before.frame = after.frame the result is
  before.value, and no evaluation ever divides by zero (the result is always finite).
\<close>

theorem interpolateKeyframes_evaluation:
  "interpolateKeyframes [] f = Some (0, 0, 0)
   \<and> interpolateKeyframes [k] f = Some (kf_value k)
   \<and> (2 \<le> length ks \<and> sorted (map kf_frame ks) \<and> f \<le> kf_frame (hd ks)
        \<longrightarrow> interpolateKeyframes ks f = Some (kf_value (hd ks)))
   \<and> (2 \<le> length ks \<and> sorted (map kf_frame ks) \<and> kf_frame (last ks) < f
        \<longrightarrow> interpolateKeyframes ks f = Some (kf_value (last ks)))
   \<and> (2 \<le> length ks \<and> sorted_wrt (<) (map kf_frame ks) \<and> kf_frame (last ks) \<le> f
        \<longrightarrow> interpolateKeyframes ks f = Some (kf_value (last ks)))
   \<and> (sorted (map kf_frame (xs @ b # a # ys)) \<and> kf_frame b < f \<and> f < kf_frame a
        \<and> kf_value b = (v0, v1, v2) \<and> kf_value a = (a0, a1, a2)
        \<longrightarrow> interpolateKeyframes (xs @ b # a # ys) f =
              Some (v0 + (a0 - v0) * (real_of_int (f - kf_frame b) / real_of_int (kf_frame a - kf_frame b)),
                    v1 + (a1 - v1) * (real_of_int (f - kf_frame b) / real_of_int (kf_frame a - kf_frame b)),
                    v2 + (a2 - v2) * (real_of_int (f - kf_frame b) / real_of_int (kf_frame a - kf_frame b))))
   \<and> (findBracket ks f = Some (b', a') \<and> kf_frame b' = kf_frame a'
        \<longrightarrow> interpolateKeyframes ks f = Some (kf_value b'))
   \<and> interpolateKeyframes ks f \<noteq> None"
proof (intro conjI impI)
  show "interpolateKeyframes [] f = Some (0, 0, 0)"
    by (simp add: interpolateKeyframes_def)
  show "interpolateKeyframes [k] f = Some (kf_value k)"
    by (simp add: interpolateKeyframes_def)
  show "interpolateKeyframes ks f = Some (kf_value (hd ks))"
    if "2 \<le> length ks \<and> sorted (map kf_frame ks) \<and> f \<le> kf_frame (hd ks)"
    using that by (simp add: interpolate_at_or_before_first)
  show "interpolateKeyframes ks f = Some (kf_value (last ks))"
    if "2 \<le> length ks \<and> sorted (map kf_frame ks) \<and> kf_frame (last ks) < f"
    using that by (simp add: interpolate_after_last)
  show "interpolateKeyframes ks f = Some (kf_value (last ks))"
    if "2 \<le> length ks \<and> sorted_wrt (<) (map kf_frame ks) \<and> kf_frame (last ks) \<le> f"
    using that by (simp add: interpolate_from_last_strict)
  show "interpolateKeyframes (xs @ b # a # ys) f =
          Some (v0 + (a0 - v0) * (real_of_int (f - kf_frame b) / real_of_int (kf_frame a - kf_frame b)),
                v1 + (a1 - v1) * (real_of_int (f - kf_frame b) / real_of_int (kf_frame a - kf_frame b)),
                v2 + (a2 - v2) * (real_of_int (f - kf_frame b) / real_of_int (kf_frame a - kf_frame b)))"
    if "sorted (map kf_frame (xs @ b # a # ys)) \<and> kf_frame b < f \<and> f < kf_frame a
        \<and> kf_value b = (v0, v1, v2) \<and> kf_value a = (a0, a1, a2)"
    using that interpolate_inside [of xs b a ys f] by (simp add: lerp_inside)
  show "interpolateKeyframes ks f = Some (kf_value b')"
    if "findBracket ks f = Some (b', a') \<and> kf_frame b' = kf_frame a'"
    using that interpolate_degenerate [of ks f b' a'] by simp
  show "interpolateKeyframes ks f \<noteq> None"
    by (rule interpolate_never_nonfinite)
qed

text \<open>
  The theorem at the track of the claim, keyframes at frame 0 (value [0,0,0]) and frame
  10 (value [10,0,0]): frame 5 gives [5,0,0], frame 0 gives [0,0,0], frame 20 gives
  [10,0,0].
\<close>

theorem interpolateKeyframes_evaluation_witness:
  "interpolateKeyframes
     [\<lparr>kf_frame = 0, kf_value = (0, 0, 0)\<rparr>, \<lparr>kf_frame = 10, kf_value = (10, 0, 0)\<rparr>] 5
     = Some (5, 0, 0)
   \<and> interpolateKeyframes
     [\<lparr>kf_frame = 0, kf_value = (0, 0, 0)\<rparr>, \<lparr>kf_frame = 10, kf_value = (10, 0, 0)\<rparr>] 0
     = Some (0, 0, 0)
   \<and> interpolateKeyframes
     [\<lparr>kf_frame = 0, kf_value = (0, 0, 0)\<rparr>, \<lparr>kf_frame = 10, kf_value = (10, 0, 0)\<rparr>] 20
     = Some (10, 0, 0)
   \<and> interpolateKeyframes
     [\<lparr>kf_frame = 0, kf_value = (0, 0, 0)\<rparr>, \<lparr>kf_frame = 10, kf_value = (10, 0, 0)\<rparr>] 10
     = Some (10, 0, 0)
   \<and> interpolateKeyframes
     [\<lparr>kf_frame = 3, kf_value = (1, 2, 3)\<rparr>, \<lparr>kf_frame = 3, kf_value = (4, 5, 6)\<rparr>] 3
     = Some (1, 2, 3)"
  using
    interpolateKeyframes_evaluation
      [where xs = "[]" and ys = "[]" and f = 5
         and b = "\<lparr>kf_frame = 0, kf_value = (0, 0, 0)\<rparr>"
         and a = "\<lparr>kf_frame = 10, kf_value = (10, 0, 0)\<rparr>"
         and ?v0.0 = 0 and ?v1.0 = 0 and ?v2.0 = 0 and ?a0.0 = 10 and ?a1.0 = 0 and ?a2.0 = 0]
    interpolateKeyframes_evaluation
      [where f = 0
         and ks = "[\<lparr>kf_frame = 0, kf_value = (0, 0, 0)\<rparr>, \<lparr>kf_frame = 10, kf_value = (10, 0, 0)\<rparr>]"]
    interpolateKeyframes_evaluation
      [where f = 20
         and ks = "[\<lparr>kf_frame = 0, kf_value = (0, 0, 0)\<rparr>, \<lparr>kf_frame = 10, kf_value = (10, 0, 0)\<rparr>]"]
    interpolateKeyframes_evaluation
      [where f = 10
         and ks = "[\<lparr>kf_frame = 0, kf_value = (0, 0, 0)\<rparr>, \<lparr>kf_frame = 10, kf_value = (10, 0, 0)\<rparr>]"]
    interpolateKeyframes_evaluation
      [where f = 3
         and ks = "[\<lparr>kf_frame = 3, kf_value = (1, 2, 3)\<rparr>, \<lparr>kf_frame = 3, kf_value = (4, 5, 6)\<rparr>]"
         and b' = "\<lparr>kf_frame = 3, kf_value = (1, 2, 3)\<rparr>"
         and a' = "\<lparr>kf_frame = 3, kf_value = (4, 5, 6)\<rparr>"]
  by simp

text \<open>
  Claim C4 as stated fails where the last frame is held by two keyframes: in the
  ascending track with frames 0, 10, 10 and values [0,0,0], [1,0,0], [2,0,0], frame 10 is
  at the last keyframe, whose value is [2,0,0], and the evaluation gives [1,0,0].
\<close>

theorem interpolateKeyframes_last_counterexample:
  "sorted (map kf_frame
     [\<lparr>kf_frame = 0, kf_value = (0, 0, 0)\<rparr>, \<lparr>kf_frame = 10, kf_value = (1, 0, 0)\<rparr>,
      \<lparr>kf_frame = 10, kf_value = (2, 0, 0)\<rparr>])
   \<and> kf_frame (last
     [\<lparr>kf_frame = 0, kf_value = (0, 0, 0)\<rparr>, \<lparr>kf_frame = 10, kf_value = (1, 0, 0)\<rparr>,
      \<lparr>kf_frame = 10, kf_value = (2, 0, 0)\<rparr>]) \<le> 10
   \<and> interpolateKeyframes
     [\<lparr>kf_frame = 0, kf_value = (0, 0, 0)\<rparr>, \<lparr>kf_frame = 10, kf_value = (1, 0, 0)\<rparr>,
      \<lparr>kf_frame = 10, kf_value = (2, 0, 0)\<rparr>] 10 = Some (1, 0, 0)
   \<and> kf_value (last
     [\<lparr>kf_frame = 0, kf_value = (0, 0, 0)\<rparr>, \<lparr>kf_frame = 10, kf_value = (1, 0, 0)\<rparr>,
      \<lparr>kf_frame = 10, kf_value = (2, 0, 0)\<rparr>]) = (2, 0, 0)"
  by (simp add: interpolateKeyframes_def)

section \<open>Selecting an object twice\<close>

lemma sel_nonadditive_twice:
  "selectedObjects (selectObject a False (selectObject a False s)) = [a]"
  by (simp add: selectObject_def deselectAll_def addToSelection_def)

lemma sel_additive_once:
  "a \<notin> set (selectedObjects s) \<Longrightarrow>
   selectedObjects (selectObject a True s) = selectedObjects s @ [a]"
  by (simp add: selectObject_def addToSelection_def)

lemma sel_additive_twice:
  "a \<notin> set (selectedObjects s) \<Longrightarrow>
   selectObject a True (selectObject a True s) = s"
  by (simp add: selectObject_def addToSelection_def removeFromSelection_def remove1_append)


text \<open>
  Claim C8. Selecting \<open>a\<close> without Shift twice leaves exactly \<open>a\<close> selected. Selecting
  an unselected \<open>a\<close> with Shift appends it, and doing so once more removes it again: the
  editor is back where it was, so from the empty selection the selection is empty again.
\<close>

theorem selectObject_toggle_asymmetry:
  "selectedObjects (selectObject a False (selectObject a False s)) = [a]
   \<and> (a \<notin> set (selectedObjects s) \<longrightarrow>
        selectedObjects (selectObject a True s) = selectedObjects s @ [a]
        \<and> selectedObjects (selectObject a True (selectObject a True s)) = selectedObjects s)
   \<and> (selectedObjects s = [] \<longrightarrow>
        selectedObjects (selectObject a True (selectObject a True s)) = [])"
  by (simp add: sel_nonadditive_twice sel_additive_once sel_additive_twice)

theorem selectObject_toggle_asymmetry_witness:
  "selectedObjects (selectObject 0 False (selectObject 0 False constructed)) = [0]
   \<and> selectedObjects (selectObject 0 True constructed) = [0]
   \<and> selectedObjects (selectObject 0 True (selectObject 0 True constructed)) = []"
  using selectObject_toggle_asymmetry [of 0 constructed]
  by (simp add: constructed_def)

section \<open>The initial editor and the fields that saveState keeps\<close>

lemma jsIncrement_exact:
  "- 9007199254740992 \<le> x \<Longrightarrow> x < 9007199254740992 \<Longrightarrow> jsIncrement x = x + 1"
  by (simp add: jsIncrement_def)

lemma jsIncrement_ge: "x \<le> jsIncrement x"
  by (simp add: jsIncrement_def)

lemma jsIncrement_small [simp]: "jsIncrement 0 = 1" "jsIncrement 1 = 2" "jsIncrement 2 = 3"
  by (simp_all add: jsIncrement_def)

lemma showInt_1: "showInt 1 = ''1''"
  by (simp add: showInt_def showNat.simps)

lemma init_eval:
  "init = \<lparr>objects = [quad1], selectedObjects = [0], clipboard = None,
      undoStack = [snap1, snap1], redoStack = [],
      objectIdCounter = 1, currentGridPlane = ''xz'', sceneCameras = [],
      activeSceneCamera = None, currentFrame = 0, totalFrames = 300, isPlaying = False,
      clips = Map.empty, cameraTrackTargets = [], undoLimit = 50, nextRef = 1\<rparr>"
  by (simp add: init_def addQuad_def addObject_def saveState_def selectObject_def deselectAll_def
      addToSelection_def setGridPlane_def gridsKeys_def constructed_def currentSnapshot_def
      serializeObject_def Let_def showInt_1 quad1_def snap1_def jsIncrement_def)

lemma saveState_fields [simp]:
  "objects (saveState s) = objects s"
  "selectedObjects (saveState s) = selectedObjects s"
  "clipboard (saveState s) = clipboard s"
  "objectIdCounter (saveState s) = objectIdCounter s"
  "currentGridPlane (saveState s) = currentGridPlane s"
  "sceneCameras (saveState s) = sceneCameras s"
  "currentFrame (saveState s) = currentFrame s"
  "totalFrames (saveState s) = totalFrames s"
  "isPlaying (saveState s) = isPlaying s"
  "clips (saveState s) = clips s"
  "cameraTrackTargets (saveState s) = cameraTrackTargets s"
  "undoLimit (saveState s) = undoLimit s"
  "nextRef (saveState s) = nextRef s"
  "redoStack (saveState s) = []"
  by (simp_all add: saveState_def Let_def)

section \<open>The cap of the undo stack\<close>

lemma undoStack_saveState:
  "length (undoStack s) \<le> undoLimit s \<Longrightarrow>
   undoStack (saveState s) =
     drop (Suc (length (undoStack s)) - undoLimit s) (undoStack s @ [currentSnapshot s])"
  by (cases "undoStack s") (auto simp: saveState_def Let_def Suc_diff_le drop_Cons')

lemma commits_undoLimit: "undoLimit (commits ms s) = undoLimit s" if "\<forall>m\<in>set ms. keepsHistory m"
  using that by (induction ms arbitrary: s) (auto simp: keepsHistory_def)

lemma commits_redoStack: "ms \<noteq> [] \<Longrightarrow> redoStack (commits ms s) = []"
proof (induction ms arbitrary: s)
  case Nil
  then show ?case by simp
next
  case (Cons m ms)
  then show ?case by (cases ms) auto
qed

lemma drop_push_step:
  assumes "length st \<le> L"
  shows "drop (length (drop (Suc (length st) - L) (st @ [x])) + n - L)
           (drop (Suc (length st) - L) (st @ [x]) @ rest)
         = drop (length st + Suc n - L) (st @ x # rest)"
proof (cases "length st = L")
  case True
  then have a: "Suc (length st) - L = Suc 0" by simp
  have b: "drop (Suc 0) (st @ [x]) @ rest = drop (Suc 0) (st @ x # rest)"
    by (cases st) auto
  from True have c: "length (drop (Suc 0) (st @ [x])) = L" by simp
  have d: "L + n - L = n" "length st + Suc n - L = Suc n" using True by simp_all
  show ?thesis unfolding a c b d by (simp only: drop_drop add_Suc_right add_0_right)
next
  case False
  with assms have "Suc (length st) - L = 0" by simp
  then show ?thesis by simp
qed

lemma commits_undoStack:
  assumes "\<forall>m\<in>set ms. keepsHistory m" "length (undoStack s) \<le> undoLimit s"
  shows "undoStack (commits ms s) =
           drop (length (undoStack s) + length ms - undoLimit s) (undoStack s @ committed ms s)"
  using assms
proof (induction ms arbitrary: s)
  case Nil
  then show ?case by simp
next
  case (Cons m ms)
  let ?t = "saveState (m s)"
  from Cons.prems have keep: "undoStack (m s) = undoStack s" "undoLimit (m s) = undoLimit s"
    by (auto simp: keepsHistory_def)
  with Cons.prems have st: "undoStack ?t =
      drop (Suc (length (undoStack s)) - undoLimit s) (undoStack s @ [currentSnapshot (m s)])"
    by (simp add: undoStack_saveState)
  then have len: "length (undoStack ?t) \<le> undoLimit ?t"
    using Cons.prems keep by simp
  from Cons.IH [of ?t] Cons.prems len
  have "undoStack (commits ms ?t) =
          drop (length (undoStack ?t) + length ms - undoLimit ?t) (undoStack ?t @ committed ms ?t)"
    by simp
  also have "\<dots> = drop (length (undoStack s) + length (m # ms) - undoLimit s)
                     (undoStack s @ committed (m # ms) s)"
    using Cons.prems(2) keep drop_push_step [of "undoStack s" "undoLimit s" "currentSnapshot (m s)" "length ms" "committed ms ?t"]
    by (simp add: st)
  finally show ?case by simp
qed

section \<open>Invariants of the editor\<close>

lemma foldl_preserves:
  assumes "\<And>t x. P t \<Longrightarrow> P (f t x)" "P s"
  shows "P (foldl f s xs)"
  using assms(2) by (induction xs arbitrary: s) (auto intro: assms(1))

lemma sameShape_refl [simp]: "sameShape s s"
  by (simp add: sameShape_def)

lemma sameShape_trans: "sameShape s t \<Longrightarrow> sameShape t u \<Longrightarrow> sameShape s u"
  by (simp add: sameShape_def)

lemma sameShape_foldl:
  assumes "\<And>t x. sameShape t (f t x)"
  shows "sameShape s (foldl f s xs)"
  by (rule foldl_preserves [where P = "sameShape s"]) (auto intro: sameShape_trans assms)

lemma heap_inv_alt:
  "heap_inv s \<longleftrightarrow>
     distinct (map ref (objects s))
     \<and> (\<forall>r\<in>set (map ref (objects s)). r < nextRef s)
     \<and> set (selectedObjects s) \<subseteq> set (map ref (objects s))
     \<and> distinct (selectedObjects s)
     \<and> (\<forall>ty\<in>set (map obj_type (objects s)). knownType ty)"
  by (auto simp: heap_inv_def)

lemma ids_inv_alt:
  "ids_inv s \<longleftrightarrow> (\<forall>i\<in>set (map obj_id (objects s)). i \<le> objectIdCounter s)"
  by (auto simp: ids_inv_def)

lemma sameShape_heap_inv: "sameShape s t \<Longrightarrow> heap_inv s \<Longrightarrow> heap_inv t"
  unfolding heap_inv_alt by (simp add: sameShape_def)

lemma sameShape_ids_inv: "sameShape s t \<Longrightarrow> ids_inv s \<Longrightarrow> ids_inv t"
  unfolding ids_inv_alt by (simp add: sameShape_def)

lemma sameShape_history_inv: "sameShape s t \<Longrightarrow> history_inv s \<Longrightarrow> history_inv t"
  by (simp add: sameShape_def history_inv_def)

lemma sameShape_editor_inv: "sameShape s t \<Longrightarrow> editor_inv s \<Longrightarrow> editor_inv t"
  by (auto simp: editor_inv_def intro: sameShape_heap_inv sameShape_ids_inv sameShape_history_inv)

lemma wf_currentSnapshot:
  "\<forall>ob\<in>set (objects s). knownType (obj_type ob) \<Longrightarrow> wf_snapshot (currentSnapshot s)"
  by (auto simp: wf_snapshot_def currentSnapshot_def serializeObject_def split: option.splits)

lemma history_inv_saveState:
  assumes "history_inv s" "heap_inv s"
  shows "history_inv (saveState s)"
proof -
  let ?st = "undoStack s @ [currentSnapshot s]"
  from assms(2) have wf: "wf_snapshot (currentSnapshot s)"
    by (simp add: wf_currentSnapshot heap_inv_def)
  have sub: "set (tl ?st) \<subseteq> set ?st" by (cases ?st) auto
  from assms(1) have h: "\<forall>p\<in>set (undoStack s). wf_snapshot p" "undoStack s \<noteq> []"
    "length (undoStack s) \<le> undoLimit s" "2 \<le> undoLimit s"
    by (auto simp: history_inv_def)
  have stack: "undoStack (saveState s) = (if length ?st > undoLimit s then tl ?st else ?st)"
    by (simp add: saveState_def Let_def)
  from h wf sub have "\<forall>p\<in>set (undoStack (saveState s)). wf_snapshot p"
    unfolding stack by (auto split: if_splits)
  moreover from h have "undoStack (saveState s) \<noteq> []"
    unfolding stack by (cases "undoStack s"; cases "tl (undoStack s)") auto
  moreover from h have "length (undoStack (saveState s)) \<le> undoLimit s"
    unfolding stack by auto
  ultimately show ?thesis using h by (simp add: history_inv_def)
qed

lemma editor_inv_saveState: "editor_inv s \<Longrightarrow> editor_inv (saveState s)"
  by (simp add: editor_inv_def history_inv_saveState heap_inv_def ids_inv_def)

lemma editor_inv_init: "editor_inv init"
  by (simp add: init_eval editor_inv_def heap_inv_def ids_inv_def history_inv_def quad1_def
      snap1_def wf_snapshot_def knownType_def)

lemma sameShape_updateObject:
  assumes "\<And>ob. ref (g ob) = ref ob \<and> obj_id (g ob) = obj_id ob \<and> obj_type (g ob) = obj_type ob"
  shows "sameShape s (updateObject r g s)"
  by (simp add: sameShape_def updateObject_def assms)

subsection \<open>Operations that keep the shape\<close>

lemma sameShape_applyFrameOne: "sameShape s (applyFrameOne s r)"
  by (auto simp: applyFrameOne_def Let_def split: option.splits
      intro!: sameShape_updateObject sameShape_trans [OF sameShape_updateObject sameShape_updateObject])

lemma sameShape_applyFrame: "sameShape s (applyFrame s)"
  unfolding applyFrame_def by (rule sameShape_foldl) (rule sameShape_applyFrameOne)

lemma sameShape_frame: "sameShape s (s\<lparr>currentFrame := f\<rparr>)"
  by (simp add: sameShape_def)

lemma sameShape_seekFrame: "sameShape s (seekFrame f s)"
  unfolding seekFrame_def by (rule sameShape_trans [OF sameShape_frame sameShape_applyFrame])

lemma sameShape_stopPlayback: "sameShape s (stopPlayback s)"
proof -
  have "sameShape s (s\<lparr>isPlaying := False, currentFrame := 0\<rparr>)" by (simp add: sameShape_def)
  then show ?thesis unfolding stopPlayback_def by (rule sameShape_trans) (rule sameShape_applyFrame)
qed

lemma sameShape_prevKeyframe: "sameShape s (prevKeyframe s)"
  unfolding prevKeyframe_def Let_def
  by (rule sameShape_trans [OF sameShape_frame sameShape_applyFrame])

lemma sameShape_nextKeyframe: "sameShape s (nextKeyframe s)"
  unfolding nextKeyframe_def Let_def
  by (rule sameShape_trans [OF sameShape_frame sameShape_applyFrame])

lemma sameShape_updateCameraTracking: "sameShape s (updateCameraTracking lookAt s)"
  unfolding updateCameraTracking_def
  by (rule sameShape_foldl) (auto split: option.splits intro!: sameShape_updateObject)

lemma sameShape_animate: "sameShape s (animate lookAt s)"
proof -
  have "sameShape s (if isPlaying s then
          (let f = currentFrame s + 1
           in applyFrame (s\<lparr>currentFrame := (if f \<ge> totalFrames s then 0 else f)\<rparr>))
        else s)"
    by (auto simp: Let_def intro: sameShape_trans [OF sameShape_frame sameShape_applyFrame])
  then show ?thesis
    unfolding animate_def by (rule sameShape_trans) (rule sameShape_updateCameraTracking)
qed

lemma sameShape_addKeyframeOne: "sameShape s (addKeyframeOne s r)"
  by (simp add: addKeyframeOne_def sameShape_def Let_def split: option.splits)

lemma sameShape_setField: "sameShape s (updateObject r (setField p ax v) s)"
  by (rule sameShape_updateObject) (cases p; simp)

lemma editor_inv_addKeyframe: "editor_inv s \<Longrightarrow> editor_inv (addKeyframe s)"
  unfolding addKeyframe_def
  by (intro editor_inv_saveState sameShape_editor_inv [OF sameShape_foldl])
     (rule sameShape_addKeyframeOne)

lemma editor_inv_editTransform: "editor_inv s \<Longrightarrow> editor_inv (editTransform p ax v s)"
  unfolding editTransform_def
  by (intro editor_inv_saveState sameShape_editor_inv [OF sameShape_foldl])
     (rule sameShape_setField)

lemma editor_inv_gizmoRelease: "editor_inv s \<Longrightarrow> editor_inv (gizmoRelease r pos rot sc s)"
  unfolding gizmoRelease_def
  by (intro editor_inv_saveState sameShape_editor_inv [OF sameShape_updateObject]) simp_all

lemma editor_inv_renameObject: "editor_inv s \<Longrightarrow> editor_inv (renameObject r newName s)"
  unfolding renameObject_def
  by (intro editor_inv_saveState sameShape_editor_inv [OF sameShape_updateObject]) simp_all

lemma editor_inv_setCameraTrackTarget:
  "editor_inv s \<Longrightarrow> editor_inv (setCameraTrackTarget cameraId targetId s)"
  unfolding setCameraTrackTarget_def
  by (intro editor_inv_saveState, erule sameShape_editor_inv [rotated])
     (simp add: sameShape_def split: option.splits)

lemma editor_inv_setGridPlane: "editor_inv s \<Longrightarrow> editor_inv (setGridPlane plane s)"
  by (erule sameShape_editor_inv [rotated]) (simp add: sameShape_def setGridPlane_def)

lemma editor_inv_togglePlay: "editor_inv s \<Longrightarrow> editor_inv (togglePlay s)"
  by (erule sameShape_editor_inv [rotated]) (simp add: sameShape_def togglePlay_def)

lemma editor_inv_copy: "editor_inv s \<Longrightarrow> editor_inv (copy s)"
  by (erule sameShape_editor_inv [rotated]) (simp add: sameShape_def copy_def)

subsection \<open>Selection, creation and deletion\<close>

lemma editor_inv_deselectAll: "editor_inv s \<Longrightarrow> editor_inv (deselectAll s)"
  by (simp add: editor_inv_def heap_inv_def ids_inv_def history_inv_def deselectAll_def)

lemma editor_inv_addToSelection:
  "editor_inv s \<Longrightarrow> r \<in> ref ` set (objects s) \<Longrightarrow> editor_inv (addToSelection r s)"
  by (simp add: editor_inv_def heap_inv_def ids_inv_def history_inv_def addToSelection_def)

lemma editor_inv_removeFromSelection: "editor_inv s \<Longrightarrow> editor_inv (removeFromSelection r s)"
  by (auto simp: editor_inv_def heap_inv_def ids_inv_def history_inv_def removeFromSelection_def
      dest: notin_set_remove1)

lemma selection_objects [simp]:
  "objects (deselectAll s) = objects s"
  "objects (addToSelection r s) = objects s"
  "objects (removeFromSelection r s) = objects s"
  "objects (selectObject r shift s) = objects s"
  by (simp_all add: deselectAll_def addToSelection_def removeFromSelection_def selectObject_def
      Let_def)

lemma editor_inv_selectObject:
  "editor_inv s \<Longrightarrow> r \<in> ref ` set (objects s) \<Longrightarrow> editor_inv (selectObject r shift s)"
  unfolding selectObject_def Let_def
  by (auto intro!: editor_inv_removeFromSelection editor_inv_addToSelection editor_inv_deselectAll)

lemma editor_inv_selectAll: "editor_inv s \<Longrightarrow> editor_inv (selectAll s)"
proof -
  assume inv: "editor_inv s"
  let ?P = "\<lambda>t. editor_inv t \<and> objects t = objects s"
  have "?P (foldl (\<lambda>t ob. if ob \<in> set (objects s) then addToSelection (ref ob) t else t)
             (deselectAll s) (objects s))"
    by (rule foldl_preserves [where P = ?P])
       (auto simp: inv editor_inv_deselectAll intro!: editor_inv_addToSelection)
  moreover have "foldl (\<lambda>t ob. if ob \<in> set (objects s) then addToSelection (ref ob) t else t) u xs
      = foldl (\<lambda>t ob. addToSelection (ref ob) t) u xs" if "set xs \<subseteq> set (objects s)" for u xs
    using that by (induction xs arbitrary: u) auto
  ultimately show ?thesis by (simp add: selectAll_def)
qed

lemma createObjectFromData_history [simp]:
  "undoStack (createObjectFromData d s) = undoStack s"
  "redoStack (createObjectFromData d s) = redoStack s"
  "undoLimit (createObjectFromData d s) = undoLimit s"
  "selectedObjects (createObjectFromData d s) = selectedObjects s"
  "objectIdCounter (createObjectFromData d s) = objectIdCounter s"
  "clips (createObjectFromData d s) = clips s"
  "cameraTrackTargets (createObjectFromData d s) = cameraTrackTargets s"
  by (simp_all add: createObjectFromData_def Let_def)

lemma heap_inv_createObjectFromData: "heap_inv s \<Longrightarrow> heap_inv (createObjectFromData d s)"
  by (auto simp: heap_inv_def createObjectFromData_def Let_def knownType_def)

lemma ids_inv_createObjectFromData:
  "ids_inv s \<Longrightarrow> d_id d \<le> objectIdCounter s \<Longrightarrow> ids_inv (createObjectFromData d s)"
  by (auto simp: ids_inv_def createObjectFromData_def Let_def)

lemma history_inv_cong:
  "undoStack t = undoStack s \<Longrightarrow> redoStack t = redoStack s \<Longrightarrow> undoLimit t = undoLimit s \<Longrightarrow>
   history_inv t = history_inv s"
  by (simp add: history_inv_def)

lemma editor_inv_createObjectFromData:
  "editor_inv s \<Longrightarrow> editor_inv (createObjectFromData d s)"
  by (simp add: editor_inv_def heap_inv_createObjectFromData
      history_inv_cong [of "createObjectFromData d s" s])

lemma editor_inv_bump: "editor_inv s \<Longrightarrow> editor_inv (s\<lparr>objectIdCounter := n\<rparr>)"
  by (auto simp: editor_inv_def heap_inv_def history_inv_def)

lemma find_ref_live: "find P xs = Some ob \<Longrightarrow> ref ob \<in> ref ` set xs"
  by (auto simp: find_Some_iff)

lemma editor_inv_pasteOne: "editor_inv s \<Longrightarrow> editor_inv (pasteOne s d)"
  unfolding pasteOne_def Let_def
  by (auto split: option.splits
      intro!: editor_inv_addToSelection editor_inv_createObjectFromData editor_inv_bump
      dest: find_ref_live)

lemma editor_inv_paste: "editor_inv s \<Longrightarrow> editor_inv (paste s)"
  unfolding paste_def
  by (auto split: option.splits
      intro!: editor_inv_saveState foldl_preserves [where P = editor_inv] editor_inv_pasteOne
        editor_inv_deselectAll)

lemma editor_inv_duplicateOne: "editor_inv s \<Longrightarrow> editor_inv (duplicateOne s r)"
  unfolding duplicateOne_def Let_def
  by (auto split: option.splits
      intro!: editor_inv_addToSelection editor_inv_createObjectFromData editor_inv_bump
      dest: find_ref_live)

lemma editor_inv_duplicateSelected: "editor_inv s \<Longrightarrow> editor_inv (duplicateSelected s)"
  unfolding duplicateSelected_def
  by (auto intro!: editor_inv_saveState foldl_preserves [where P = editor_inv]
        editor_inv_duplicateOne editor_inv_deselectAll)

lemma editor_inv_addObject:
  "editor_inv s \<Longrightarrow> knownType ty \<Longrightarrow> editor_inv (addObject prefix ty pos rot s)"
  unfolding addObject_def Let_def
  by (intro editor_inv_saveState editor_inv_selectObject)
     (auto simp: editor_inv_def heap_inv_def ids_inv_def history_inv_def)

subsection \<open>Deletion, restoring, and all commands\<close>

lemma objects_foldl_deleteOne:
  "objects (foldl deleteOne s rs) = filter (\<lambda>ob. ref ob \<notin> set rs) (objects s)"
  by (induction rs arbitrary: s) (auto simp: deleteOne_def intro: filter_cong)

lemma deleteOne_fields [simp]:
  "selectedObjects (deleteOne s r) = selectedObjects s"
  "nextRef (deleteOne s r) = nextRef s"
  "objectIdCounter (deleteOne s r) = objectIdCounter s"
  "undoStack (deleteOne s r) = undoStack s"
  "redoStack (deleteOne s r) = redoStack s"
  "undoLimit (deleteOne s r) = undoLimit s"
  "cameraTrackTargets (deleteOne s r) = cameraTrackTargets s"
  by (simp_all add: deleteOne_def)

lemma foldl_deleteOne_fields [simp]:
  "selectedObjects (foldl deleteOne s rs) = selectedObjects s"
  "nextRef (foldl deleteOne s rs) = nextRef s"
  "objectIdCounter (foldl deleteOne s rs) = objectIdCounter s"
  "undoStack (foldl deleteOne s rs) = undoStack s"
  "redoStack (foldl deleteOne s rs) = redoStack s"
  "undoLimit (foldl deleteOne s rs) = undoLimit s"
  "cameraTrackTargets (foldl deleteOne s rs) = cameraTrackTargets s"
  by (induction rs arbitrary: s) simp_all

lemma editor_inv_deleteSelected: "editor_inv s \<Longrightarrow> editor_inv (deleteSelected s)"
proof -
  assume inv: "editor_inv s"
  let ?t = "deselectAll (foldl deleteOne s (selectedObjects s))"
  from inv have "heap_inv ?t"
    by (auto simp: editor_inv_def heap_inv_def deselectAll_def objects_foldl_deleteOne
        distinct_map_filter)
  moreover from inv have "history_inv ?t"
    by (simp add: editor_inv_def history_inv_def deselectAll_def)
  ultimately have "editor_inv (saveState ?t)"
    by (intro editor_inv_saveState) (simp add: editor_inv_def)
  with inv show ?thesis by (simp add: deleteSelected_def)
qed

lemma restoreObject_fields [simp]:
  "undoStack (restoreObject s d) = undoStack s"
  "redoStack (restoreObject s d) = redoStack s"
  "undoLimit (restoreObject s d) = undoLimit s"
  "selectedObjects (restoreObject s d) = selectedObjects s"
  "objects (restoreObject s d) = objects (createObjectFromData d s)"
  "nextRef (restoreObject s d) = nextRef (createObjectFromData d s)"
  "clips (restoreObject s d) = clips s"
  "objectIdCounter (restoreObject s d) = objectIdCounter s"
  by (simp_all add: restoreObject_def Let_def split: option.splits)

lemma heap_inv_cong:
  "objects t = objects s \<Longrightarrow> selectedObjects t = selectedObjects s \<Longrightarrow> nextRef t = nextRef s \<Longrightarrow>
   heap_inv t = heap_inv s"
  by (simp add: heap_inv_def)

lemma heap_inv_restoreObject: "heap_inv s \<Longrightarrow> heap_inv (restoreObject s d)"
  using heap_inv_cong [of "restoreObject s d" "createObjectFromData d s"]
  by (simp add: heap_inv_createObjectFromData)

lemma foldl_restoreObject_fields [simp]:
  "undoStack (foldl restoreObject s ds) = undoStack s"
  "redoStack (foldl restoreObject s ds) = redoStack s"
  "undoLimit (foldl restoreObject s ds) = undoLimit s"
  "selectedObjects (foldl restoreObject s ds) = selectedObjects s"
  by (induction ds arbitrary: s) simp_all

text \<open>A loop over well-formed records runs to its end and is the fold of its body.\<close>

lemma restoreObjects_wellformed:
  "restoreObjects s (map Some ds) = (foldl restoreObject s ds, True)"
  by (induction ds arbitrary: s) simp_all

lemma restoreObjects_preserves:
  assumes "\<And>t d. P t \<Longrightarrow> P (restoreObject t d)" "P s"
  shows "P (fst (restoreObjects s ds))"
  using assms(2) by (induction s ds rule: restoreObjects.induct) (auto intro: assms(1))

lemma restoreState_wellformed:
  "restoreState (Some (map Some ds)) cl s =
     (foldl restoreObject
        ((deselectAll s)\<lparr>objects := [], sceneCameras := [], cameraTrackTargets := []\<rparr>) ds)
     \<lparr>clips := (case cl of Some c \<Rightarrow> c | None \<Rightarrow> Map.empty),
      objectIdCounter := Max (set (0 # map obj_id (objects (foldl restoreObject
        ((deselectAll s)\<lparr>objects := [], sceneCameras := [], cameraTrackTargets := []\<rparr>) ds))))\<rparr>"
  by (simp add: restoreState_def restoreObjects_wellformed Let_def)

lemma restoreObjects_fields [simp]:
  "undoStack (fst (restoreObjects s ds)) = undoStack s"
  "redoStack (fst (restoreObjects s ds)) = redoStack s"
  "undoLimit (fst (restoreObjects s ds)) = undoLimit s"
  "selectedObjects (fst (restoreObjects s ds)) = selectedObjects s"
  by (induction s ds rule: restoreObjects.induct) simp_all

lemma restoreState_cases:
  "restoreState objs cl s =
     (case objs of
        None \<Rightarrow> (deselectAll s)\<lparr>objects := [], sceneCameras := [], cameraTrackTargets := []\<rparr>
      | Some ds \<Rightarrow>
          (let s2 = fst (restoreObjects
                 ((deselectAll s)\<lparr>objects := [], sceneCameras := [], cameraTrackTargets := []\<rparr>) ds)
           in if snd (restoreObjects
                 ((deselectAll s)\<lparr>objects := [], sceneCameras := [], cameraTrackTargets := []\<rparr>) ds)
              then s2\<lparr>clips := (case cl of Some c \<Rightarrow> c | None \<Rightarrow> Map.empty),
                      objectIdCounter := Max (set (0 # map obj_id (objects s2)))\<rparr>
              else s2))"
  by (simp add: restoreState_def Let_def split: option.splits prod.splits bool.splits)

lemma restoreState_history [simp]:
  "undoStack (restoreState objs cl s) = undoStack s"
  "redoStack (restoreState objs cl s) = redoStack s"
  "undoLimit (restoreState objs cl s) = undoLimit s"
  "selectedObjects (restoreState objs cl s) = []"
  by (simp_all add: restoreState_cases Let_def deselectAll_def split: option.splits)

lemma heap_inv_restoreState: "heap_inv s \<Longrightarrow> heap_inv (restoreState objs cl s)"
proof -
  assume h: "heap_inv s"
  let ?s1 = "(deselectAll s)\<lparr>objects := [], sceneCameras := [], cameraTrackTargets := []\<rparr>"
  have h1: "heap_inv ?s1" by (simp add: heap_inv_def deselectAll_def)
  have "heap_inv (fst (restoreObjects ?s1 ds))" for ds
    by (rule restoreObjects_preserves [where P = heap_inv]) (auto intro: heap_inv_restoreObject h1)
  with h1 show ?thesis
    by (auto simp: restoreState_cases Let_def heap_inv_def split: option.splits)
qed

lemma editor_inv_restoreState:
  "heap_inv s \<Longrightarrow> history_inv s \<Longrightarrow> editor_inv (restoreState objs cl s)"
  by (simp add: editor_inv_def heap_inv_restoreState
      history_inv_cong [of "restoreState objs cl s" s])

lemma editor_inv_undo: "editor_inv s \<Longrightarrow> editor_inv (undo s)"
proof (cases "length (undoStack s) \<le> 1")
  case True
  assume "editor_inv s"
  with True show ?thesis by (simp add: undo_def)
next
  case False
  assume inv: "editor_inv s"
  let ?s1 = "s\<lparr>undoStack := butlast (undoStack s), redoStack := redoStack s @ [last (undoStack s)]\<rparr>"
  from False have ne: "undoStack s \<noteq> []" "butlast (undoStack s) \<noteq> []"
    by (cases "undoStack s"; cases "tl (undoStack s)"; auto)+
  from ne obtain xs x where "undoStack s = xs @ [x]"
    by (cases "undoStack s" rule: rev_cases) auto
  with inv ne have "history_inv ?s1"
    by (auto simp: editor_inv_def history_inv_def)
  moreover from inv have "heap_inv ?s1" by (simp add: editor_inv_def heap_inv_def)
  ultimately show ?thesis using False
    by (simp add: undo_def Let_def editor_inv_restoreState)
qed

lemma editor_inv_redo: "editor_inv s \<Longrightarrow> editor_inv (redo s)"
proof (cases "length (redoStack s) = 0")
  case True
  assume "editor_inv s"
  with True show ?thesis by (simp add: redo_def)
next
  case False
  assume inv: "editor_inv s"
  let ?s1 = "s\<lparr>redoStack := butlast (redoStack s), undoStack := undoStack s @ [last (redoStack s)]\<rparr>"
  from False have ne: "redoStack s \<noteq> []" by auto
  from ne obtain xs x where "redoStack s = xs @ [x]"
    by (cases "redoStack s" rule: rev_cases) auto
  with inv ne have "history_inv ?s1"
    by (auto simp: editor_inv_def history_inv_def)
  moreover from inv have "heap_inv ?s1" by (simp add: editor_inv_def heap_inv_def)
  ultimately show ?thesis using False
    by (simp add: redo_def Let_def editor_inv_restoreState)
qed

lemma editor_inv_load: "editor_inv s \<Longrightarrow> editor_inv (load parsed s)"
proof (cases parsed)
  case Unparsable
  assume "editor_inv s"
  with Unparsable show ?thesis by (simp add: load_def)
next
  case JsonNull
  assume "editor_inv s"
  with JsonNull show ?thesis by (simp add: load_def)
next
  case (Document data)
  assume inv: "editor_inv s"
  let ?s1 = "case f_gridPlane data of
               Some g \<Rightarrow> if g \<noteq> [] then setGridPlane g s else s
             | None \<Rightarrow> s"
  let ?s2 = "case f_totalFrames data of
               Some n \<Rightarrow> if n \<noteq> 0 then ?s1\<lparr>totalFrames := n\<rparr> else ?s1
             | None \<Rightarrow> ?s1"
  have "sameShape s ?s1" by (simp add: sameShape_def setGridPlane_def split: option.splits)
  moreover have "sameShape ?s1 ?s2" by (simp add: sameShape_def split: option.splits)
  ultimately have "editor_inv ?s2"
    using inv by (blast intro: sameShape_editor_inv sameShape_trans)
  then have "editor_inv (restoreState (f_objects data) (f_clips data) ?s2)"
    by (simp add: editor_inv_def editor_inv_restoreState [unfolded editor_inv_def])
  with Document show ?thesis by (simp add: load_def Let_def)
qed

lemma editor_inv_selectCamera: "editor_inv s \<Longrightarrow> editor_inv (selectCamera camId s)"
  by (erule sameShape_editor_inv [rotated]) (simp add: sameShape_def selectCamera_def)

lemma exec_editor_inv: "editor_inv s \<Longrightarrow> editor_inv (exec lookAt c s)"
  by (cases c)
     (auto simp: addQuad_def addCube_def addCamera_def knownType_def
        intro: editor_inv_addObject editor_inv_copy editor_inv_paste editor_inv_duplicateSelected
          editor_inv_deleteSelected editor_inv_renameObject editor_inv_selectObject
          editor_inv_deselectAll editor_inv_selectAll editor_inv_undo editor_inv_redo
          editor_inv_addKeyframe editor_inv_togglePlay editor_inv_setCameraTrackTarget
          editor_inv_editTransform editor_inv_gizmoRelease editor_inv_setGridPlane editor_inv_load
          editor_inv_selectCamera
          sameShape_editor_inv [OF sameShape_stopPlayback]
          sameShape_editor_inv [OF sameShape_prevKeyframe]
          sameShape_editor_inv [OF sameShape_nextKeyframe]
          sameShape_editor_inv [OF sameShape_seekFrame]
          sameShape_editor_inv [OF sameShape_animate])

lemma reachable_editor_inv: "reachable lookAt s \<Longrightarrow> editor_inv s"
  by (induction rule: reachable.induct) (auto intro: editor_inv_init exec_editor_inv)

section \<open>Undo and redo restore snapshots\<close>

lemma cameraTrackTargets_restoreObject:
  "map_of (cameraTrackTargets (restoreObject s d)) =
     (case d_trackTarget d of
        Some t \<Rightarrow> if t \<noteq> 0 then (map_of (cameraTrackTargets s))(d_id d \<mapsto> t)
                  else map_of (cameraTrackTargets s)
      | None \<Rightarrow> map_of (cameraTrackTargets s))"
  by (cases "d_trackTarget d") (simp_all add: restoreObject_def Let_def update_conv')

lemma target_kept:
  assumes "map_of (cameraTrackTargets s) k = v"
    and "\<forall>e\<in>set ds. d_id e = k \<longrightarrow> d_trackTarget e = v"
    and "v \<noteq> Some 0"
  shows "map_of (cameraTrackTargets (foldl restoreObject s ds)) k = v"
  using assms
proof (induction ds arbitrary: s)
  case Nil
  then show ?case by simp
next
  case (Cons d ds)
  from Cons.prems have "map_of (cameraTrackTargets (restoreObject s d)) k = v"
    by (auto simp: cameraTrackTargets_restoreObject split: option.splits)
  with Cons.IH [of "restoreObject s d"] Cons.prems show ?case by simp
qed

lemma target_set:
  assumes "map_of (cameraTrackTargets s) k = None \<or> map_of (cameraTrackTargets s) k = v"
    and "\<forall>e\<in>set ds. d_id e = k \<longrightarrow> d_trackTarget e = v"
    and "\<exists>e\<in>set ds. d_id e = k"
    and "v \<noteq> Some 0"
  shows "map_of (cameraTrackTargets (foldl restoreObject s ds)) k = v"
  using assms
proof (induction ds arbitrary: s)
  case Nil
  then show ?case by simp
next
  case (Cons d ds)
  show ?case
  proof (cases "d_id d = k")
    case True
    with Cons.prems have "map_of (cameraTrackTargets (restoreObject s d)) k = v"
      by (auto simp: cameraTrackTargets_restoreObject split: option.splits)
    with Cons.prems show ?thesis
      using target_kept [of "restoreObject s d" k v ds] by simp
  next
    case False
    with Cons.prems
    have "map_of (cameraTrackTargets (restoreObject s d)) k = None
          \<or> map_of (cameraTrackTargets (restoreObject s d)) k = v"
      by (auto simp: cameraTrackTargets_restoreObject split: option.splits)
    with Cons.IH [of "restoreObject s d"] Cons.prems False show ?thesis by simp
  qed
qed

lemma serialize_restored:
  assumes "\<forall>d\<in>set ds. knownType (d_type d)"
  shows "map (serializeObject t) (objects (foldl restoreObject s ds)) =
     map (serializeObject t) (objects s)
     @ map (\<lambda>d. d\<lparr>d_trackTarget :=
         (case map_of (cameraTrackTargets t) (d_id d) of
            Some x \<Rightarrow> if x \<noteq> 0 then Some x else None
          | None \<Rightarrow> None)\<rparr>) ds"
  using assms
proof (induction ds arbitrary: s)
  case Nil
  then show ?case by simp
next
  case (Cons d ds)
  from Cons.prems have "knownType (d_type d)" by simp
  then have "map (serializeObject t) (objects (restoreObject s d)) =
     map (serializeObject t) (objects s)
     @ [d\<lparr>d_trackTarget :=
         (case map_of (cameraTrackTargets t) (d_id d) of
            Some x \<Rightarrow> if x \<noteq> 0 then Some x else None
          | None \<Rightarrow> None)\<rparr>]"
    by (simp add: createObjectFromData_def knownType_def Let_def serializeObject_def)
  with Cons.IH [of "restoreObject s d"] Cons.prems show ?case by simp
qed

lemma truthy_target:
  "v \<noteq> Some (0::int) \<Longrightarrow>
   (case v of Some x \<Rightarrow> if x \<noteq> 0 then Some x else None | None \<Rightarrow> None) = v"
  by (cases v) auto

lemma restoreState_objects:
  "objects (restoreState (Some (map Some ds)) cl s) =
     objects (foldl restoreObject
       ((deselectAll s)\<lparr>objects := [], sceneCameras := [], cameraTrackTargets := []\<rparr>) ds)"
  "cameraTrackTargets (restoreState (Some (map Some ds)) cl s) =
     cameraTrackTargets (foldl restoreObject
       ((deselectAll s)\<lparr>objects := [], sceneCameras := [], cameraTrackTargets := []\<rparr>) ds)"
  by (simp_all add: restoreState_wellformed)

lemma restored_target:
  assumes nonzero: "\<forall>d\<in>set ds. d_trackTarget d \<noteq> Some 0"
    and same: "\<forall>d\<in>set ds. \<forall>d'\<in>set ds. d_id d = d_id d' \<longrightarrow> d_trackTarget d = d_trackTarget d'"
    and d: "d \<in> set ds"
  shows "map_of (cameraTrackTargets (restoreState (Some (map Some ds)) cl s)) (d_id d) = d_trackTarget d"
  unfolding restoreState_objects
proof (rule target_set)
  show "map_of (cameraTrackTargets
          ((deselectAll s)\<lparr>objects := [], sceneCameras := [], cameraTrackTargets := []\<rparr>)) (d_id d) = None
        \<or> map_of (cameraTrackTargets
          ((deselectAll s)\<lparr>objects := [], sceneCameras := [], cameraTrackTargets := []\<rparr>)) (d_id d)
          = d_trackTarget d" by simp
  from same d show "\<forall>e\<in>set ds. d_id e = d_id d \<longrightarrow> d_trackTarget e = d_trackTarget d"
    by blast
  from d show "\<exists>e\<in>set ds. d_id e = d_id d" by blast
  from nonzero d show "d_trackTarget d \<noteq> Some 0" by blast
qed

lemma serialize_restoreState:
  assumes known: "\<forall>d\<in>set ds. knownType (d_type d)"
    and nonzero: "\<forall>d\<in>set ds. d_trackTarget d \<noteq> Some 0"
    and same: "\<forall>d\<in>set ds. \<forall>d'\<in>set ds. d_id d = d_id d' \<longrightarrow> d_trackTarget d = d_trackTarget d'"
  shows "map (serializeObject (restoreState (Some (map Some ds)) cl s))
           (objects (restoreState (Some (map Some ds)) cl s)) = ds"
proof -
  let ?s1 = "(deselectAll s)\<lparr>objects := [], sceneCameras := [], cameraTrackTargets := []\<rparr>"
  let ?u = "restoreState (Some (map Some ds)) cl s"
  have "map (serializeObject ?u) (objects ?u) =
      map (\<lambda>d. d\<lparr>d_trackTarget :=
         (case map_of (cameraTrackTargets ?u) (d_id d) of
            Some x \<Rightarrow> if x \<noteq> 0 then Some x else None
          | None \<Rightarrow> None)\<rparr>) ds"
    unfolding restoreState_objects(1)
    using serialize_restored [OF known, of ?u ?s1] by simp
  also have "\<dots> = ds"
  proof (rule map_idI)
    fix d assume d: "d \<in> set ds"
    with nonzero have "d_trackTarget d \<noteq> Some 0" by blast
    then have "(case map_of (cameraTrackTargets ?u) (d_id d) of
            Some x \<Rightarrow> if x \<noteq> 0 then Some x else None
          | None \<Rightarrow> None) = d_trackTarget d"
      unfolding restored_target [OF nonzero same d] by (rule truthy_target)
    then show "d\<lparr>d_trackTarget :=
         (case map_of (cameraTrackTargets ?u) (d_id d) of
            Some x \<Rightarrow> if x \<noteq> 0 then Some x else None
          | None \<Rightarrow> None)\<rparr> = d"
      by simp
  qed
  finally show ?thesis .
qed

lemma clips_restoreState: "clips (restoreState (Some (map Some ds)) (Some cl) s) = cl"
  by (simp add: restoreState_wellformed)

lemma currentSnapshot_restoreState:
  assumes "wf_snapshot p"
  shows "currentSnapshot (restoreState (Some (map Some (snap_objects p))) (Some (snap_clips p)) s) = p"
proof -
  from assms have wf: "\<forall>d\<in>set (snap_objects p). knownType (d_type d)"
    "\<forall>d\<in>set (snap_objects p). d_trackTarget d \<noteq> Some 0"
    "\<forall>d\<in>set (snap_objects p). \<forall>d'\<in>set (snap_objects p).
       d_id d = d_id d' \<longrightarrow> d_trackTarget d = d_trackTarget d'"
    unfolding wf_snapshot_def by blast+
  have eq: "map (serializeObject (restoreState (Some (map Some (snap_objects p))) (Some (snap_clips p)) s))
           (objects (restoreState (Some (map Some (snap_objects p))) (Some (snap_clips p)) s)) = snap_objects p"
    by (rule serialize_restoreState [OF wf])
  show ?thesis
    unfolding currentSnapshot_def clips_restoreState eq by simp
qed

subsection \<open>The inverse law\<close>

lemma undo_noop: "length (undoStack s) \<le> 1 \<Longrightarrow> undo s = s"
  by (simp add: undo_def)

lemma redo_noop: "redoStack s = [] \<Longrightarrow> redo s = s"
  by (simp add: redo_def)

lemma undo_top:
  assumes "undoStack s = st @ [p, c]" "wf_snapshot p"
  shows "currentSnapshot (undo s) = p" "redoStack (undo s) = redoStack s @ [c]"
    "undoStack (undo s) = st @ [p]"
proof -
  from assms(1) have "butlast (undoStack s) = st @ [p]" "last (undoStack s) = c"
    by (simp_all add: butlast_append)
  with assms(1) have u: "undo s =
      restoreState (Some (map Some (snap_objects p))) (Some (snap_clips p))
        (s\<lparr>undoStack := st @ [p], redoStack := redoStack s @ [c]\<rparr>)"
    by (simp add: undo_def Let_def)
  show "currentSnapshot (undo s) = p"
    unfolding u by (rule currentSnapshot_restoreState [OF assms(2)])
  show "redoStack (undo s) = redoStack s @ [c]" "undoStack (undo s) = st @ [p]"
    unfolding u by simp_all
qed

lemma redo_top:
  assumes "redoStack s = rs @ [c]" "wf_snapshot c"
  shows "currentSnapshot (redo s) = c" "undoStack (redo s) = undoStack s @ [c]"
    "redoStack (redo s) = rs"
proof -
  from assms(1) have u: "redo s =
      restoreState (Some (map Some (snap_objects c))) (Some (snap_clips c))
        (s\<lparr>redoStack := rs, undoStack := undoStack s @ [c]\<rparr>)"
    by (simp add: redo_def Let_def)
  show "currentSnapshot (redo s) = c"
    unfolding u by (rule currentSnapshot_restoreState [OF assms(2)])
  show "undoStack (redo s) = undoStack s @ [c]" "redoStack (redo s) = rs"
    unfolding u by simp_all
qed

lemma undoStack_saveState_top:
  assumes "undoStack s = st @ [p]" "2 \<le> undoLimit s"
  shows "\<exists>st'. undoStack (saveState s) = st' @ [p, currentSnapshot s]"
proof (cases "length (st @ [p, currentSnapshot s]) > undoLimit s")
  case True
  with assms(2) obtain x xs where "st = x # xs" by (cases st) auto
  with True assms(1) have "undoStack (saveState s) = xs @ [p, currentSnapshot s]"
    by (simp add: saveState_def Let_def)
  then show ?thesis by blast
next
  case False
  with assms(1) have "undoStack (saveState s) = st @ [p, currentSnapshot s]"
    by (simp add: saveState_def Let_def)
  then show ?thesis by blast
qed

lemma undo_after_saveState:
  assumes "history_inv s" "undoStack s = st @ [p]"
  shows "currentSnapshot (undo (saveState s)) = p"
proof -
  from assms have "wf_snapshot p" "2 \<le> undoLimit s" by (simp_all add: history_inv_def)
  moreover from undoStack_saveState_top [OF assms(2) \<open>2 \<le> undoLimit s\<close>]
  obtain st' where "undoStack (saveState s) = st' @ [p, currentSnapshot s]" by blast
  ultimately show ?thesis by (simp add: undo_top(1))
qed

lemma redo_after_undo:
  assumes "history_inv s" "undoStack s = st @ [p, c]"
  shows "currentSnapshot (undo s) = p" "currentSnapshot (redo (undo s)) = c"
proof -
  from assms have wf: "wf_snapshot p" "wf_snapshot c" by (simp_all add: history_inv_def)
  from undo_top [OF assms(2) wf(1)] show "currentSnapshot (undo s) = p" by simp
  from undo_top(2) [OF assms(2) wf(1)] wf(2) show "currentSnapshot (redo (undo s)) = c"
    by (rule redo_top(1))
qed

text \<open>
  Claim C1. In an editor whose history is as sessions keep it (\<open>history_inv\<close>, which
  holds in every reachable editor and is untouched by a mutation that has not been saved
  yet): \<open>undo\<close> right after \<open>saveState\<close> leaves a scene whose serialization (objects with
  ids, names, types, transforms and track targets, and the clips) is exactly the snapshot
  \<open>p\<close> that was on top of the undo stack before the save; \<open>undo\<close> with \<open>c\<close> on top of
  \<open>p\<close> restores \<open>p\<close>, and \<open>redo\<close> right after it restores \<open>c\<close>, the snapshot that
  the undo removed. \<open>undo\<close> changes nothing when the undo stack holds at most one entry,
  and \<open>redo\<close> changes nothing when the redo stack is empty.
\<close>

theorem undo_redo_inverse:
  "(history_inv s \<and> undoStack s = st @ [p] \<longrightarrow> currentSnapshot (undo (saveState s)) = p)
   \<and> (history_inv s \<and> undoStack s = st @ [p, c] \<longrightarrow>
        currentSnapshot (undo s) = p \<and> currentSnapshot (redo (undo s)) = c)
   \<and> (length (undoStack s) \<le> 1 \<longrightarrow> undo s = s)
   \<and> (redoStack s = [] \<longrightarrow> redo s = s)
   \<and> (reachable lookAt s \<longrightarrow> history_inv s)"
  using undo_after_saveState [of s st p] redo_after_undo [of s st p c] undo_noop [of s]
    redo_noop [of s] reachable_editor_inv [of lookAt s]
  by (simp add: editor_inv_def)

text \<open>
  The theorem at the initial editor, at the editor after \<open>addCube\<close>, and at the
  constructor's editor with its empty history.
\<close>

lemma showInt_2: "showInt 2 = ''2''"
  by (simp add: showInt_def showNat.simps)

lemma addCube_init:
  "addCube init = init
     \<lparr>objects := [quad1, \<lparr>ref = 1, obj_id = 2, obj_name = ''Cube_2'', obj_type = ''cube'',
            position = (0, 0.5, 0), rotation = (0, 0, 0), scale = (1, 1, 1)\<rparr>],
      selectedObjects := [1], objectIdCounter := 2, nextRef := 2,
      undoStack := [snap1, snap1,
        \<lparr>snap_objects = snap_objects snap1 @
           [\<lparr>d_id = 2, d_name = ''Cube_2'', d_type = ''cube'', d_position = (0, 0.5, 0),
             d_rotation = (0, 0, 0), d_scale = (1, 1, 1), d_trackTarget = None\<rparr>],
         snap_clips = Map.empty\<rparr>]\<rparr>"
  by (simp add: init_eval addCube_def addObject_def saveState_def selectObject_def deselectAll_def
      addToSelection_def currentSnapshot_def serializeObject_def Let_def showInt_2 quad1_def
      snap1_def)

theorem undo_redo_inverse_witness:
  "currentSnapshot (undo (saveState init)) = snap1
   \<and> currentSnapshot (undo (addCube init)) = snap1
   \<and> currentSnapshot (redo (undo (addCube init))) = currentSnapshot (addCube init)
   \<and> undo constructed = constructed
   \<and> redo init = init
   \<and> undoStack init \<noteq> [] \<and> 2 \<le> undoLimit init"
proof -
  have inv: "history_inv init" "history_inv (addCube init)"
    using editor_inv_init editor_inv_addObject [OF editor_inv_init, of "''cube''"]
    by (simp_all add: editor_inv_def addCube_def knownType_def)
  have top: "undoStack (addCube init) = [snap1] @ [snap1, currentSnapshot (addCube init)]"
    unfolding addCube_init
    by (simp add: init_eval currentSnapshot_def serializeObject_def quad1_def snap1_def)
  have top0: "undoStack init = [snap1] @ [snap1]" by (simp add: init_eval)
  from undo_redo_inverse [of init "[snap1]" snap1 snap1 "\<lambda>a b. a"] inv(1) top0
  have "currentSnapshot (undo (saveState init)) = snap1" "redo init = init"
    by (simp_all add: init_eval)
  moreover from undo_redo_inverse [of "addCube init" "[snap1]" snap1
      "currentSnapshot (addCube init)" "\<lambda>a b. a"] inv(2) top
  have "currentSnapshot (undo (addCube init)) = snap1"
    "currentSnapshot (redo (undo (addCube init))) = currentSnapshot (addCube init)"
    by simp_all
  moreover from undo_redo_inverse [of constructed "[]" snap1 snap1 "\<lambda>a b. a"]
  have "undo constructed = constructed" by (simp add: constructed_def)
  moreover from undo_redo_inverse [of init "[]" snap1 snap1 "\<lambda>a b. a"] reachable_init
  have "history_inv init" by blast
  then have "undoStack init \<noteq> [] \<and> 2 \<le> undoLimit init" by (simp add: history_inv_def)
  ultimately show ?thesis by simp
qed

section \<open>The cap of the history\<close>

lemma length_committed [simp]: "length (committed ms s) = length ms"
  by (induction ms arbitrary: s) simp_all

text \<open>
  Claim C9. A run of committed mutations that starts with an undo stack within the limit
  ends with one within the limit: it holds the last entries of the old stack followed by
  the snapshots the run pushed, as many as the limit allows, so the oldest are the ones
  dropped, and exactly \<open>undoLimit\<close> entries once that many exist. Every commit empties
  the redo stack. In every reachable editor both stacks together are within the limit.
\<close>

theorem undo_stack_cap:
  "((\<forall>m\<in>set ms. keepsHistory m) \<and> length (undoStack s) \<le> undoLimit s \<longrightarrow>
      length (undoStack (commits ms s)) \<le> undoLimit s
      \<and> undoStack (commits ms s) =
          drop (length (undoStack s) + length ms - undoLimit s) (undoStack s @ committed ms s)
      \<and> (undoLimit s \<le> length (undoStack s) + length ms \<longrightarrow>
           length (undoStack (commits ms s)) = undoLimit s)
      \<and> (ms \<noteq> [] \<longrightarrow> redoStack (commits ms s) = []))
   \<and> (reachable lookAt s \<longrightarrow> length (undoStack s) + length (redoStack s) \<le> undoLimit s)"
proof (intro conjI impI)
  assume a: "(\<forall>m \<in> set ms. keepsHistory m) \<and> length (undoStack s) \<le> undoLimit s"
  then have eq: "undoStack (commits ms s) =
      drop (length (undoStack s) + length ms - undoLimit s) (undoStack s @ committed ms s)"
    by (simp add: commits_undoStack)
  then show "undoStack (commits ms s) =
      drop (length (undoStack s) + length ms - undoLimit s) (undoStack s @ committed ms s)" .
  from eq show "length (undoStack (commits ms s)) \<le> undoLimit s" by simp
  from eq show "length (undoStack (commits ms s)) = undoLimit s"
    if "undoLimit s \<le> length (undoStack s) + length ms" using that by simp
  show "redoStack (commits ms s) = []" if "ms \<noteq> []" using that by (rule commits_redoStack)
next
  assume "reachable lookAt s"
  then show "length (undoStack s) + length (redoStack s) \<le> undoLimit s"
    using reachable_editor_inv [of lookAt s] by (simp add: editor_inv_def history_inv_def)
qed

text \<open>
  Three renames of the initial quad, each committed, with a limit of two and two entries
  on the stack: two entries remain, those of the last two renames.
\<close>

theorem undo_stack_cap_witness:
  "length (undoStack (commits
      [updateObject 0 (\<lambda>ob. ob\<lparr>obj_name := ''A''\<rparr>),
       updateObject 0 (\<lambda>ob. ob\<lparr>obj_name := ''B''\<rparr>),
       updateObject 0 (\<lambda>ob. ob\<lparr>obj_name := ''C''\<rparr>)]
      (init\<lparr>undoLimit := 2\<rparr>))) = 2
   \<and> map (\<lambda>p. concat (map d_name (snap_objects p))) (undoStack (commits
      [updateObject 0 (\<lambda>ob. ob\<lparr>obj_name := ''A''\<rparr>),
       updateObject 0 (\<lambda>ob. ob\<lparr>obj_name := ''B''\<rparr>),
       updateObject 0 (\<lambda>ob. ob\<lparr>obj_name := ''C''\<rparr>)]
      (init\<lparr>undoLimit := 2\<rparr>))) = [''B'', ''C'']
   \<and> length (undoStack init) + length (redoStack init) \<le> undoLimit init"
proof -
  have keep: "keepsHistory (updateObject r g)" for r g
    by (simp add: keepsHistory_def updateObject_def)
  from undo_stack_cap [of
      "[updateObject 0 (\<lambda>ob. ob\<lparr>obj_name := ''A''\<rparr>),
        updateObject 0 (\<lambda>ob. ob\<lparr>obj_name := ''B''\<rparr>),
        updateObject 0 (\<lambda>ob. ob\<lparr>obj_name := ''C''\<rparr>)]"
      "init\<lparr>undoLimit := 2\<rparr>" "\<lambda>a b. a"] keep
  have "length (undoStack (commits
      [updateObject 0 (\<lambda>ob. ob\<lparr>obj_name := ''A''\<rparr>),
       updateObject 0 (\<lambda>ob. ob\<lparr>obj_name := ''B''\<rparr>),
       updateObject 0 (\<lambda>ob. ob\<lparr>obj_name := ''C''\<rparr>)]
      (init\<lparr>undoLimit := 2\<rparr>))) = 2"
    by (simp add: init_eval)
  moreover have "map (\<lambda>p. concat (map d_name (snap_objects p))) (undoStack (commits
      [updateObject 0 (\<lambda>ob. ob\<lparr>obj_name := ''A''\<rparr>),
       updateObject 0 (\<lambda>ob. ob\<lparr>obj_name := ''B''\<rparr>),
       updateObject 0 (\<lambda>ob. ob\<lparr>obj_name := ''C''\<rparr>)]
      (init\<lparr>undoLimit := 2\<rparr>))) = [''B'', ''C'']"
    by (simp add: init_eval updateObject_def saveState_def currentSnapshot_def
        serializeObject_def quad1_def Let_def)
  moreover from undo_stack_cap [of "[]" init "\<lambda>a b. a"] reachable_init
  have "length (undoStack init) + length (redoStack init) \<le> undoLimit init" by blast
  ultimately show ?thesis by simp
qed

section \<open>Serialization round trip\<close>

text \<open>
  Claim C10. For a live object of a known type, \<open>createObjectFromData\<close> applied to its
  serialization appends an object that equals the original in id, name, type, position,
  rotation and scale; only the reference (the mesh) is new. The id is the one in the record,
  the record's id is the object's, and the clips and track targets, keyed by id, are not
  touched. Serializing the new object gives the same record again.
\<close>

theorem serialize_createObjectFromData_roundtrip:
  "knownType (obj_type ob) \<longrightarrow>
     objects (createObjectFromData (serializeObject s ob) t) = objects t @ [ob\<lparr>ref := nextRef t\<rparr>]
     \<and> d_id (serializeObject s ob) = obj_id ob
     \<and> clips (createObjectFromData (serializeObject s ob) t) = clips t
     \<and> cameraTrackTargets (createObjectFromData (serializeObject s ob) t) = cameraTrackTargets t
     \<and> objectIdCounter (createObjectFromData (serializeObject s ob) t) = objectIdCounter t
     \<and> serializeObject s (last (objects (createObjectFromData (serializeObject s ob) t)))
         = serializeObject s ob"
  by (cases ob) (simp add: createObjectFromData_def serializeObject_def knownType_def Let_def)

theorem serialize_createObjectFromData_roundtrip_witness:
  "objects (createObjectFromData (serializeObject init quad1) init) = [quad1, quad1\<lparr>ref := 1\<rparr>]"
  using serialize_createObjectFromData_roundtrip [of quad1 init init]
  by (simp add: init_eval) (simp add: quad1_def knownType_def)

section \<open>Operations that are not all-or-nothing\<close>

lemma load_unparsed: "load Unparsable s = s" "load JsonNull s = s"
  by (simp_all add: load_def)

lemma paste_noop: "clipboard s = None \<Longrightarrow> paste s = s"
  by (simp add: paste_def)

text \<open>
  Claim C6 fails on the code. A file that parses as JSON but has no \<open>objects\<close> array,
  here \<open>{"gridPlane": "xy", "totalFrames": 100}\<close>, loaded into the initial editor: the
  grid plane and the frame count are taken from the file and the scene is emptied before
  \<open>state.objects.forEach\<close> throws; the \<open>catch\<close> restores nothing.
\<close>

theorem load_missing_objects_partial:
  "load (Document \<lparr>f_gridPlane = Some ''xy'', f_totalFrames = Some 100, f_objects = None,
                   f_clips = None\<rparr>) init
     = init\<lparr>objects := [], selectedObjects := [], currentGridPlane := ''xy'', totalFrames := 100\<rparr>
   \<and> objects init = [quad1] \<and> currentGridPlane init = ''xz'' \<and> totalFrames init = 300"
  by (simp add: init_eval load_def restoreState_def setGridPlane_def gridsKeys_def
      deselectAll_def)

lemma undo_addCube_init:
  "undo (addCube init) = init
     \<lparr>objects := [quad1\<lparr>ref := 2\<rparr>], selectedObjects := [], nextRef := 3,
      redoStack := [\<lparr>snap_objects = snap_objects snap1 @
           [\<lparr>d_id = 2, d_name = ''Cube_2'', d_type = ''cube'', d_position = (0, 0.5, 0),
             d_rotation = (0, 0, 0), d_scale = (1, 1, 1), d_trackTarget = None\<rparr>],
         snap_clips = Map.empty\<rparr>]\<rparr>"
  unfolding addCube_init
  by (simp add: init_eval undo_def restoreState_def restoreObject_def createObjectFromData_def
      deselectAll_def Let_def snap1_def quad1_def)

text \<open>
  Claim C7 fails on the code for \<open>addKeyframe\<close>. In the editor after \<open>addCube\<close>, \<open>undo\<close>
  and a click on the quad, the selection is one quad and the redo stack holds the undone
  snapshot. \<open>addKeyframe\<close> leaves the clips alone, but saves: the redo stack is emptied
  and the undo stack grows by one snapshot.
\<close>

theorem addKeyframe_without_camera_saves:
  "map obj_type (List.map_filter (deref (selectObject 2 False (undo (addCube init))))
       (selectedObjects (selectObject 2 False (undo (addCube init))))) = [''quad'']
   \<and> length (redoStack (selectObject 2 False (undo (addCube init)))) = 1
   \<and> length (undoStack (selectObject 2 False (undo (addCube init)))) = 2
   \<and> clips (addKeyframe (selectObject 2 False (undo (addCube init))))
       = clips (selectObject 2 False (undo (addCube init)))
   \<and> redoStack (addKeyframe (selectObject 2 False (undo (addCube init)))) = []
   \<and> length (undoStack (addKeyframe (selectObject 2 False (undo (addCube init))))) = 3"
  unfolding undo_addCube_init
  by (simp add: init_eval selectObject_def deselectAll_def addToSelection_def addKeyframe_def
      addKeyframeOne_def deref_def List.map_filter_def quad1_def saveState_def Let_def)

section \<open>Object ids\<close>

lemma freshIds_iff:
  "freshIds s s' \<longleftrightarrow>
     (\<exists>news. objects s' = objects s @ news
        \<and> sorted_wrt (<) (map obj_id news)
        \<and> (\<forall>n\<in>set news. objectIdCounter s < obj_id n \<and> obj_id n \<le> objectIdCounter s'))
     \<and> objectIdCounter s \<le> objectIdCounter s'"
proof
  assume f: "freshIds s s'"
  then have "objects s' = objects s @ drop (length (objects s)) (objects s')"
    by (metis append_take_drop_id freshIds_def)
  with f show "(\<exists>news. objects s' = objects s @ news
        \<and> sorted_wrt (<) (map obj_id news)
        \<and> (\<forall>n\<in>set news. objectIdCounter s < obj_id n \<and> obj_id n \<le> objectIdCounter s'))
     \<and> objectIdCounter s \<le> objectIdCounter s'"
    unfolding freshIds_def by blast
next
  assume "(\<exists>news. objects s' = objects s @ news
        \<and> sorted_wrt (<) (map obj_id news)
        \<and> (\<forall>n\<in>set news. objectIdCounter s < obj_id n \<and> obj_id n \<le> objectIdCounter s'))
     \<and> objectIdCounter s \<le> objectIdCounter s'"
  then show "freshIds s s'" by (auto simp: freshIds_def)
qed

lemma freshIds_same:
  "objects t = objects s \<Longrightarrow> objectIdCounter t = objectIdCounter s \<Longrightarrow> freshIds s t"
  by (simp add: freshIds_def)

lemma freshIds_trans:
  assumes "freshIds s t" "freshIds t u"
  shows "freshIds s u"
proof -
  from assms(1) obtain a where a: "objects t = objects s @ a" "sorted_wrt (<) (map obj_id a)"
    "\<forall>n\<in>set a. objectIdCounter s < obj_id n \<and> obj_id n \<le> objectIdCounter t"
    "objectIdCounter s \<le> objectIdCounter t"
    unfolding freshIds_iff by blast
  from assms(2) obtain b where b: "objects u = objects t @ b" "sorted_wrt (<) (map obj_id b)"
    "\<forall>n\<in>set b. objectIdCounter t < obj_id n \<and> obj_id n \<le> objectIdCounter u"
    "objectIdCounter t \<le> objectIdCounter u"
    unfolding freshIds_iff by blast
  have "objects u = objects s @ (a @ b)" using a(1) b(1) by simp
  moreover have "sorted_wrt (<) (map obj_id (a @ b))"
    using a(2,3) b(2,3) by (fastforce simp: sorted_wrt_append)
  moreover have "\<forall>n\<in>set (a @ b). objectIdCounter s < obj_id n \<and> obj_id n \<le> objectIdCounter u"
    using a(3,4) b(3,4) by fastforce
  moreover have "objectIdCounter s \<le> objectIdCounter u" using a(4) b(4) by simp
  ultimately show ?thesis unfolding freshIds_iff by blast
qed

lemma freshIds_foldl_exact:
  assumes step: "\<And>t x. counterExact t 1 \<Longrightarrow>
      freshIds t (f t x) \<and> objectIdCounter (f t x) \<le> objectIdCounter t + 1"
    and exact: "counterExact s (length xs)"
  shows "freshIds s (foldl f s xs)"
  using exact
proof (induction xs arbitrary: s)
  case Nil
  then show ?case by (simp add: freshIds_same)
next
  case (Cons x xs)
  from Cons.prems have "counterExact s 1" by (simp add: counterExact_def)
  from step [OF this, of x]
  have one: "freshIds s (f s x)" "objectIdCounter (f s x) \<le> objectIdCounter s + 1" by simp_all
  from one(1) have "objectIdCounter s \<le> objectIdCounter (f s x)" by (simp add: freshIds_def)
  with one(2) Cons.prems have "counterExact (f s x) (length xs)"
    by (simp add: counterExact_def)
  then have "freshIds (f s x) (foldl f (f s x) xs)" by (rule Cons.IH)
  with one(1) show ?case by (auto intro: freshIds_trans)
qed

lemma freshIds_create:
  "freshIds s (createObjectFromData d (s\<lparr>objectIdCounter := d_id d\<rparr>))"
  if "d_id d = objectIdCounter s + 1"
  using that by (simp add: freshIds_def createObjectFromData_def Let_def)

lemma addToSelection_counter [simp]: "objectIdCounter (addToSelection r s) = objectIdCounter s"
  by (simp add: addToSelection_def)

lemma deselectAll_counter [simp]: "objectIdCounter (deselectAll s) = objectIdCounter s"
  by (simp add: deselectAll_def)

lemma freshIds_addToSelection: "freshIds s t \<Longrightarrow> freshIds s (addToSelection r t)"
  by (erule freshIds_trans) (simp add: freshIds_same)

lemma counterExact_increment:
  "counterExact s 1 \<Longrightarrow> jsIncrement (objectIdCounter s) = objectIdCounter s + 1"
  by (simp add: counterExact_def jsIncrement_exact)

lemma pasteOne_counter: "objectIdCounter (pasteOne s d) = jsIncrement (objectIdCounter s)"
  by (simp add: pasteOne_def Let_def split: option.splits)

lemma duplicateOne_counter:
  "objectIdCounter (duplicateOne s r) =
     (case deref s r of None \<Rightarrow> objectIdCounter s | Some orig \<Rightarrow> jsIncrement (objectIdCounter s))"
  by (simp add: duplicateOne_def Let_def split: option.splits)

lemma freshIds_pasteOne:
  assumes "counterExact s 1"
  shows "freshIds s (pasteOne s d) \<and> objectIdCounter (pasteOne s d) \<le> objectIdCounter s + 1"
proof -
  let ?n = "objectIdCounter s + 1"
  let ?d = "d\<lparr>d_id := ?n, d_name := d_name d @ ''_paste'',
              d_position := (case d_position d of (x, y, z) \<Rightarrow> (x + 0.5, y, z + 0.5))\<rparr>"
  have "freshIds s (createObjectFromData ?d (s\<lparr>objectIdCounter := d_id ?d\<rparr>))"
    by (rule freshIds_create) simp
  then have "freshIds s (pasteOne s d)"
    by (auto simp: pasteOne_def Let_def counterExact_increment [OF assms] split: option.splits
        intro: freshIds_addToSelection)
  then show ?thesis by (simp add: pasteOne_counter counterExact_increment [OF assms])
qed

lemma freshIds_duplicateOne:
  assumes "counterExact s 1"
  shows "freshIds s (duplicateOne s r)
    \<and> objectIdCounter (duplicateOne s r) \<le> objectIdCounter s + 1"
proof (cases "deref s r")
  case None
  then show ?thesis by (simp add: duplicateOne_def freshIds_same)
next
  case (Some orig)
  let ?n = "objectIdCounter s + 1"
  let ?d = "(serializeObject s orig)\<lparr>d_id := ?n, d_name := obj_name orig @ ''_copy'',
              d_position := (case position orig of (x, y, z) \<Rightarrow> (x + 1, y, z))\<rparr>"
  have "freshIds s (createObjectFromData ?d (s\<lparr>objectIdCounter := d_id ?d\<rparr>))"
    by (rule freshIds_create) simp
  with Some have "freshIds s (duplicateOne s r)"
    by (auto simp: duplicateOne_def Let_def counterExact_increment [OF assms]
        split: option.splits intro: freshIds_addToSelection)
  with Some show ?thesis by (simp add: duplicateOne_counter counterExact_increment [OF assms])
qed

lemma freshIds_paste:
  assumes "counterExact s (case clipboard s of None \<Rightarrow> 0 | Some cb \<Rightarrow> length cb)"
  shows "freshIds s (paste s)"
proof (cases "clipboard s")
  case None
  then show ?thesis by (simp add: paste_def freshIds_same)
next
  case (Some cb)
  with assms have "counterExact (deselectAll s) (length cb)" by (simp add: counterExact_def)
  then have "freshIds (deselectAll s) (foldl pasteOne (deselectAll s) cb)"
    by (rule freshIds_foldl_exact [rotated]) (rule freshIds_pasteOne)
  moreover have "freshIds s (deselectAll s)" by (simp add: freshIds_same)
  moreover have "freshIds (foldl pasteOne (deselectAll s) cb)
      (saveState (foldl pasteOne (deselectAll s) cb))"
    by (simp add: freshIds_same)
  ultimately show ?thesis using Some by (auto simp: paste_def intro: freshIds_trans)
qed

lemma freshIds_duplicateSelected:
  assumes "counterExact s (length (selectedObjects s))"
  shows "freshIds s (duplicateSelected s)"
proof (cases "length (selectedObjects s) = 0")
  case True
  then show ?thesis by (simp add: duplicateSelected_def freshIds_same)
next
  case False
  from assms have "counterExact (deselectAll s) (length (selectedObjects s))"
    by (simp add: counterExact_def)
  then have "freshIds (deselectAll s) (foldl duplicateOne (deselectAll s) (selectedObjects s))"
    by (rule freshIds_foldl_exact [rotated]) (rule freshIds_duplicateOne)
  moreover have "freshIds s (deselectAll s)" by (simp add: freshIds_same)
  moreover have "freshIds (foldl duplicateOne (deselectAll s) (selectedObjects s))
      (saveState (foldl duplicateOne (deselectAll s) (selectedObjects s)))"
    by (simp add: freshIds_same)
  ultimately show ?thesis using False
    by (auto simp: duplicateSelected_def intro: freshIds_trans)
qed

lemma addObject_ids:
  "map obj_id (objects (addObject prefix ty pos rot s)) =
     map obj_id (objects s) @ [jsIncrement (objectIdCounter s)]"
  "objectIdCounter (addObject prefix ty pos rot s) = jsIncrement (objectIdCounter s)"
  "take (length (objects s)) (objects (addObject prefix ty pos rot s)) = objects s"
  by (simp_all add: addObject_def Let_def selectObject_def deselectAll_def addToSelection_def)

lemma freshIds_addObject:
  "counterExact s 1 \<Longrightarrow> freshIds s (addObject prefix ty pos rot s)"
  by (simp add: freshIds_def addObject_def Let_def selectObject_def deselectAll_def
      addToSelection_def counterExact_increment)

lemma freshIds_above_live:
  assumes "ids_inv s" "freshIds s s'"
  shows "\<forall>n\<in>set (drop (length (objects s)) (objects s')). \<forall>ob\<in>set (objects s). obj_id ob < obj_id n"
  using assms by (fastforce simp: ids_inv_def freshIds_def)

lemma freshIds_distinct:
  assumes "ids_inv s" "freshIds s s'" "distinct (map obj_id (objects s))"
  shows "distinct (map obj_id (objects s'))"
proof -
  from assms(2) obtain news where n: "objects s' = objects s @ news"
    "sorted_wrt (<) (map obj_id news)"
    "\<forall>n\<in>set news. objectIdCounter s < obj_id n"
    unfolding freshIds_iff by blast
  from n(2) have "distinct (map obj_id news)"
    by (simp add: strict_sorted_iff)
  with assms(1,3) n(1,3) show ?thesis
    by (fastforce simp: ids_inv_def)
qed

lemma freshIds_ids_inv:
  assumes "ids_inv s" "freshIds s s'"
  shows "ids_inv s'"
proof -
  from assms(2) obtain news where n: "objects s' = objects s @ news"
    "\<forall>n\<in>set news. objectIdCounter s < obj_id n \<and> obj_id n \<le> objectIdCounter s'"
    "objectIdCounter s \<le> objectIdCounter s'"
    unfolding freshIds_iff by blast
  with assms(1) show ?thesis by (fastforce simp: ids_inv_def)
qed

subsection \<open>No id above the counter\<close>

lemma ids_inv_saveState [simp]: "ids_inv (saveState s) = ids_inv s"
  by (simp add: ids_inv_def)

lemma ids_inv_selection [simp]:
  "ids_inv (deselectAll s) = ids_inv s"
  "ids_inv (addToSelection r s) = ids_inv s"
  "ids_inv (removeFromSelection r s) = ids_inv s"
  "ids_inv (selectObject r shift s) = ids_inv s"
  by (simp_all add: ids_inv_def deselectAll_def addToSelection_def removeFromSelection_def
      selectObject_def Let_def)

lemma ids_inv_selectAll: "ids_inv s \<Longrightarrow> ids_inv (selectAll s)"
  unfolding selectAll_def by (rule foldl_preserves [where P = ids_inv]) simp_all

lemma ids_inv_pasteOne: "ids_inv s \<Longrightarrow> ids_inv (pasteOne s d)"
  using jsIncrement_ge [of "objectIdCounter s"]
  by (fastforce simp: pasteOne_def Let_def ids_inv_def createObjectFromData_def
      addToSelection_def split: option.splits)

lemma ids_inv_duplicateOne: "ids_inv s \<Longrightarrow> ids_inv (duplicateOne s r)"
  using jsIncrement_ge [of "objectIdCounter s"]
  by (fastforce simp: duplicateOne_def Let_def ids_inv_def createObjectFromData_def
      addToSelection_def split: option.splits)

lemma ids_inv_paste: "ids_inv s \<Longrightarrow> ids_inv (paste s)"
  unfolding paste_def
  by (auto split: option.splits intro!: foldl_preserves [where P = ids_inv] ids_inv_pasteOne)

lemma ids_inv_duplicateSelected: "ids_inv s \<Longrightarrow> ids_inv (duplicateSelected s)"
  unfolding duplicateSelected_def
  by (auto intro!: foldl_preserves [where P = ids_inv] ids_inv_duplicateOne)

lemma ids_inv_addObject: "ids_inv s \<Longrightarrow> ids_inv (addObject prefix ty pos rot s)"
  using jsIncrement_ge [of "objectIdCounter s"]
  by (fastforce simp: addObject_def Let_def ids_inv_def selectObject_def deselectAll_def
      addToSelection_def)

lemma ids_inv_deleteSelected: "ids_inv s \<Longrightarrow> ids_inv (deleteSelected s)"
  by (auto simp: deleteSelected_def ids_inv_def deselectAll_def objects_foldl_deleteOne)

lemma ids_inv_restoreState_wellformed: "ids_inv (restoreState (Some (map Some ds)) cl s)"
  by (auto simp: restoreState_wellformed ids_inv_def)

lemma objectIdCounter_restoreState:
  "objectIdCounter (restoreState (Some (map Some ds)) cl s) =
     Max (set (0 # map obj_id (objects (restoreState (Some (map Some ds)) cl s))))"
  by (simp add: restoreState_wellformed)

lemma ids_inv_undo: "ids_inv s \<Longrightarrow> ids_inv (undo s)"
  by (simp add: undo_def Let_def ids_inv_restoreState_wellformed)

lemma ids_inv_redo: "ids_inv s \<Longrightarrow> ids_inv (redo s)"
  by (simp add: redo_def Let_def ids_inv_restoreState_wellformed)

lemma all_Some_map: "None \<notin> set ds \<Longrightarrow> \<exists>ds'. ds = map Some ds'"
proof (induction ds)
  case Nil
  then show ?case by simp
next
  case (Cons d ds)
  then obtain ds' where "ds = map Some ds'" by auto
  moreover from Cons.prems obtain x where "d = Some x" by (cases d) auto
  ultimately have "ds = map Some ds'" "d = Some x" by simp_all
  then have "d # ds = map Some (x # ds')" by simp
  then show ?case by (rule exI)
qed

lemma ids_inv_load:
  assumes "ids_inv s" "completes (Load parsed)"
  shows "ids_inv (load parsed s)"
proof (cases parsed)
  case Unparsable
  with assms show ?thesis by (simp add: load_def)
next
  case JsonNull
  with assms show ?thesis by (simp add: load_def)
next
  case (Document data)
  show ?thesis
  proof (cases "f_objects data")
    case None
    with Document show ?thesis
      by (simp add: load_def Let_def restoreState_def ids_inv_def)
  next
    case (Some ds)
    with assms(2) Document obtain ds' where "ds = map Some ds'"
      using all_Some_map [of ds] by auto
    with Some have "f_objects data = Some (map Some ds')" by simp
    with Document show ?thesis
      by (simp add: load_def Let_def ids_inv_restoreState_wellformed)
  qed
qed

lemma ids_inv_kept:
  "objects t = objects s \<Longrightarrow> objectIdCounter t = objectIdCounter s \<Longrightarrow> ids_inv s \<Longrightarrow> ids_inv t"
  by (simp add: ids_inv_def)

lemma exec_ids_inv:
  assumes "ids_inv s" "completes c"
  shows "ids_inv (exec lookAt c s)"
proof (cases c)
  case AddQuad
  with assms(1) show ?thesis by (simp add: addQuad_def ids_inv_addObject)
next
  case AddCube
  with assms(1) show ?thesis by (simp add: addCube_def ids_inv_addObject)
next
  case AddCamera
  with assms(1) show ?thesis by (simp add: addCamera_def ids_inv_addObject)
next
  case Copy
  with assms(1) show ?thesis by (auto simp: copy_def intro: ids_inv_kept)
next
  case Paste
  with assms(1) show ?thesis by (simp add: ids_inv_paste)
next
  case DuplicateSelected
  with assms(1) show ?thesis by (simp add: ids_inv_duplicateSelected)
next
  case DeleteSelected
  with assms(1) show ?thesis by (simp add: ids_inv_deleteSelected)
next
  case (RenameObject r newName)
  with assms(1) show ?thesis
    by (simp add: renameObject_def sameShape_ids_inv [OF sameShape_updateObject])
next
  case (SelectObject r shift)
  with assms(1) show ?thesis by simp
next
  case (ClickEmpty shift)
  with assms(1) show ?thesis by simp
next
  case SelectAll
  with assms(1) show ?thesis by (simp add: ids_inv_selectAll)
next
  case Undo
  with assms(1) show ?thesis by (simp add: ids_inv_undo)
next
  case Redo
  with assms(1) show ?thesis by (simp add: ids_inv_redo)
next
  case AddKeyframe
  with assms(1) show ?thesis
    by (simp add: addKeyframe_def sameShape_ids_inv [OF sameShape_foldl [OF sameShape_addKeyframeOne]])
next
  case TogglePlay
  with assms(1) show ?thesis by (auto simp: togglePlay_def intro: ids_inv_kept)
next
  case StopPlayback
  with assms(1) show ?thesis by (simp add: sameShape_ids_inv [OF sameShape_stopPlayback])
next
  case PrevKeyframe
  with assms(1) show ?thesis by (simp add: sameShape_ids_inv [OF sameShape_prevKeyframe])
next
  case NextKeyframe
  with assms(1) show ?thesis by (simp add: sameShape_ids_inv [OF sameShape_nextKeyframe])
next
  case (TimelineClick f)
  with assms(1) show ?thesis by (simp add: sameShape_ids_inv [OF sameShape_seekFrame])
next
  case (ArrowLeft shift)
  with assms(1) show ?thesis by (simp add: sameShape_ids_inv [OF sameShape_seekFrame])
next
  case (ArrowRight shift)
  with assms(1) show ?thesis by (simp add: sameShape_ids_inv [OF sameShape_seekFrame])
next
  case KeyHome
  with assms(1) show ?thesis by (simp add: sameShape_ids_inv [OF sameShape_seekFrame])
next
  case KeyEnd
  with assms(1) show ?thesis by (simp add: sameShape_ids_inv [OF sameShape_seekFrame])
next
  case (SetCameraTrackTarget cameraId targetId)
  with assms(1) show ?thesis
    by (auto simp: setCameraTrackTarget_def split: option.splits intro: ids_inv_kept)
next
  case (SelectCamera camId)
  with assms(1) show ?thesis by (auto simp: selectCamera_def intro: ids_inv_kept)
next
  case (EditTransform p ax v)
  with assms(1) show ?thesis
    by (simp add: editTransform_def sameShape_ids_inv [OF sameShape_foldl [OF sameShape_setField]])
next
  case (GizmoRelease r pos rot sc)
  with assms(1) show ?thesis
    by (simp add: gizmoRelease_def sameShape_ids_inv [OF sameShape_updateObject])
next
  case (SetGridPlane plane)
  with assms(1) show ?thesis by (auto simp: setGridPlane_def intro: ids_inv_kept)
next
  case (Load parsed)
  with assms show ?thesis by (simp add: ids_inv_load)
next
  case Animate
  with assms(1) show ?thesis by (simp add: sameShape_ids_inv [OF sameShape_animate])
qed

lemma ids_inv_init: "ids_inv init"
  by (simp add: init_eval ids_inv_def quad1_def)

text \<open>
  The two provisos are needed. At 2^53 the increment returns the counter unchanged, so the
  new object gets the id that the counter already held. And a load that an exception cuts
  short leaves the counter as it was: after the cube of id 2 has been restored into the
  initial editor, whose counter is 1, \<open>addCube\<close> gives a second cube the id 2.
\<close>

lemma addCube_saturated:
  assumes "objectIdCounter s = 9007199254740992"
  shows "map obj_id (objects (addCube s)) = map obj_id (objects s) @ [9007199254740992]"
    "objectIdCounter (addCube s) = 9007199254740992"
  using assms by (simp_all add: addCube_def addObject_ids jsIncrement_def)

lemma load_cut_short_collision:
  "\<not> completes (Load (Document cutShortFile))"
  "map obj_id (objects (load (Document cutShortFile) init)) = [2]"
  "objectIdCounter (load (Document cutShortFile) init) = 1"
  "map obj_id (objects (addCube (load (Document cutShortFile) init))) = [2, 2]"
  by (simp_all add: cutShortFile_def load_def restoreState_def restoreObject_def
      createObjectFromData_def deselectAll_def Let_def init_eval addCube_def addObject_ids)

text \<open>
  Claim C3, as amended. While the increments of the id counter are exact (the counter
  stays within 2^53), each of \<open>addQuad\<close>, \<open>addCube\<close>, \<open>addCamera\<close>, \<open>paste\<close> and
  \<open>duplicateSelected\<close> only appends objects and gives them ids above the counter, in
  increasing order; the three \<open>add\<close> operations give the new object the counter plus
  one. When no object in the scene has an id above the counter, a new id is therefore
  strictly greater than the id of every object in the scene, and ids that are distinct
  stay distinct. That no id is above the counter holds at the start, is kept by every
  command other than a load that an exception cuts short, and holds after every
  \<open>restoreState\<close> of well-formed records (as in \<open>undo\<close> and \<open>redo\<close>), which sets the
  counter to the maximum of the ids in the scene, 0 when it is empty.
\<close>

theorem creation_ids_fresh:
  "(counterExact s 1 \<longrightarrow>
      freshIds s (addQuad s) \<and> freshIds s (addCube s) \<and> freshIds s (addCamera lookAt s)
      \<and> map obj_id (objects (addQuad s)) = map obj_id (objects s) @ [objectIdCounter s + 1]
      \<and> map obj_id (objects (addCube s)) = map obj_id (objects s) @ [objectIdCounter s + 1]
      \<and> map obj_id (objects (addCamera lookAt s))
          = map obj_id (objects s) @ [objectIdCounter s + 1])
   \<and> (counterExact s (case clipboard s of None \<Rightarrow> 0 | Some cb \<Rightarrow> length cb) \<longrightarrow>
        freshIds s (paste s))
   \<and> (counterExact s (length (selectedObjects s)) \<longrightarrow> freshIds s (duplicateSelected s))
   \<and> (ids_inv s \<and> freshIds s s' \<longrightarrow>
        (\<forall>n\<in>set (drop (length (objects s)) (objects s')). \<forall>ob\<in>set (objects s).
           obj_id ob < obj_id n)
        \<and> ids_inv s')
   \<and> (ids_inv s \<and> freshIds s s' \<and> distinct (map obj_id (objects s)) \<longrightarrow>
        distinct (map obj_id (objects s')))
   \<and> objectIdCounter (restoreState (Some (map Some ds)) cl s) =
        Max (set (0 # map obj_id (objects (restoreState (Some (map Some ds)) cl s))))
   \<and> ids_inv (restoreState (Some (map Some ds)) cl s)
   \<and> ids_inv init
   \<and> (ids_inv s \<and> completes c \<longrightarrow> ids_inv (exec lookAt c s))"
  using freshIds_above_live [of s s'] freshIds_ids_inv [of s s'] freshIds_distinct [of s s']
    exec_ids_inv [of s c lookAt] freshIds_paste [of s] freshIds_duplicateSelected [of s]
  by (simp add: addQuad_def addCube_def addCamera_def freshIds_addObject
      objectIdCounter_restoreState addObject_ids counterExact_increment
      ids_inv_restoreState_wellformed ids_inv_init)

text \<open>
  The theorem at the initial editor: \<open>addCube\<close> gives the cube an id above the quad's,
  and after \<open>undo\<close> the counter is the quad's id.
\<close>

theorem creation_ids_fresh_witness:
  "obj_id quad1 < obj_id (last (objects (addCube init)))
   \<and> map obj_id (objects (addCube init)) = [1, 2]
   \<and> distinct (map obj_id (objects (addCube init)))
   \<and> objectIdCounter (undo (addCube init)) = 1
   \<and> take 1 (objects (duplicateSelected init)) = [quad1]
   \<and> take 1 (objects (paste init)) = [quad1]
   \<and> obj_id (last (objects (addCube init))) \<le> objectIdCounter (addCube init)"
proof -
  have exact: "counterExact init 1" by (simp add: counterExact_def init_eval)
  have d: "distinct (map obj_id (objects init))" by (simp add: init_eval)
  note t = creation_ids_fresh [of init "\<lambda>a b. a" "addCube init" "[]" None AddCube]
  from t have inv: "ids_inv init" by blast
  from t exact have fresh: "freshIds init (addCube init)"
    "map obj_id (objects (addCube init)) = map obj_id (objects init) @ [objectIdCounter init + 1]"
    by blast+
  from t inv fresh(1) have "\<forall>n\<in>set (drop (length (objects init)) (objects (addCube init))).
      \<forall>ob\<in>set (objects init). obj_id ob < obj_id n"
    by blast
  then have "obj_id quad1 < obj_id (last (objects (addCube init)))"
    unfolding addCube_init by (simp add: init_eval)
  moreover from fresh(2) have "map obj_id (objects (addCube init)) = [1, 2]"
    by (simp add: init_eval quad1_def)
  moreover from t inv fresh(1) d have "distinct (map obj_id (objects (addCube init)))" by blast
  moreover have "objectIdCounter (undo (addCube init)) = 1"
    using creation_ids_fresh [of "init\<lparr>undoStack := [snap1, snap1], redoStack :=
        [last (undoStack (addCube init))]\<rparr>" "\<lambda>a b. a" init "snap_objects snap1"
        "Some (snap_clips snap1)" Undo]
    unfolding undo_addCube_init by (simp add: init_eval quad1_def)
  moreover have "take 1 (objects (duplicateSelected init)) = [quad1]"
  proof -
    have "counterExact init (length (selectedObjects init))"
      by (simp add: counterExact_def init_eval)
    with t have "freshIds init (duplicateSelected init)" by blast
    then show ?thesis by (simp add: freshIds_def init_eval)
  qed
  moreover have "take 1 (objects (paste init)) = [quad1]"
  proof -
    have "counterExact init (case clipboard init of None \<Rightarrow> 0 | Some cb \<Rightarrow> length cb)"
      by (simp add: counterExact_def init_eval)
    with t have "freshIds init (paste init)" by blast
    then show ?thesis by (simp add: freshIds_def init_eval)
  qed
  moreover have "obj_id (last (objects (addCube init))) \<le> objectIdCounter (addCube init)"
  proof -
    from t inv have "ids_inv (exec (\<lambda>a b. a) AddCube init)" by simp
    then show ?thesis unfolding exec.simps addCube_init by (simp add: ids_inv_def)
  qed
  ultimately show ?thesis by simp
qed

text \<open>
  Claim C3 as stated fails: ids are reused. \<open>addCube\<close> in the initial editor gives the
  cube id 2; after \<open>undo\<close> the counter is back at 1, and \<open>addQuad\<close> gives a new quad
  id 2 again.
\<close>

theorem id_reused_counterexample:
  "obj_id (last (objects (addCube init))) = 2
   \<and> obj_type (last (objects (addCube init))) = ''cube''
   \<and> obj_id (last (objects (addQuad (undo (addCube init))))) = 2
   \<and> obj_type (last (objects (addQuad (undo (addCube init))))) = ''quad''"
proof -
  have "obj_id (last (objects (addCube init))) = 2
   \<and> obj_type (last (objects (addCube init))) = ''cube''"
    unfolding addCube_init by simp
  moreover have "obj_id (last (objects (addQuad (undo (addCube init))))) = 2
   \<and> obj_type (last (objects (addQuad (undo (addCube init))))) = ''quad''"
    unfolding undo_addCube_init by (simp add: addQuad_def addObject_def Let_def init_eval)
  ultimately show ?thesis by simp
qed

section \<open>Deleting the selection\<close>

lemma find_by_ref:
  "distinct (map ref xs) \<Longrightarrow> ob \<in> set xs \<Longrightarrow> find (\<lambda>x. ref x = ref ob) xs = Some ob"
  by (induction xs) (auto simp: image_iff)

lemma clips_deleted_stay:
  "clips s k = None \<Longrightarrow> clips (foldl deleteOne s rs) k = None"
  by (induction rs arbitrary: s) (auto simp: deleteOne_def split: option.splits)

lemma clips_foldl_deleteOne:
  assumes "distinct (map ref (objects s))" "ob \<in> set (objects s)" "ref ob \<in> set rs"
  shows "clips (foldl deleteOne s rs) (obj_id ob) = None"
  using assms
proof (induction rs arbitrary: s)
  case Nil
  then show ?case by simp
next
  case (Cons r rs)
  show ?case
  proof (cases "r = ref ob")
    case True
    with Cons.prems have "clips (deleteOne s r) (obj_id ob) = None"
      by (simp add: deleteOne_def deref_def find_by_ref)
    then show ?thesis by (simp add: clips_deleted_stay)
  next
    case False
    with Cons.prems have "distinct (map ref (objects (deleteOne s r)))"
      "ob \<in> set (objects (deleteOne s r))" "ref ob \<in> set rs"
      by (auto simp: deleteOne_def distinct_map_filter)
    with Cons.IH [of "deleteOne s r"] show ?thesis by simp
  qed
qed

lemma lookupBinding_live:
  "lookupBinding objs b = Some (c, t) \<Longrightarrow> c \<in> set objs \<and> t \<in> set objs"
  by (auto simp: lookupBinding_def find_Some_iff split: option.splits)

lemma trackingPairs_live:
  "(c, t) \<in> set (trackingPairs s) \<Longrightarrow> c \<in> set (objects s) \<and> t \<in> set (objects s)"
  by (auto simp: trackingPairs_def List.map_filter_def dest: lookupBinding_live)

lemma deleteSelected_fields:
  assumes "selectedObjects s \<noteq> []"
  shows "objects (deleteSelected s) = filter (\<lambda>ob. ref ob \<notin> set (selectedObjects s)) (objects s)"
    "selectedObjects (deleteSelected s) = []"
    "cameraTrackTargets (deleteSelected s) = cameraTrackTargets s"
    "clips (deleteSelected s) = clips (foldl deleteOne s (selectedObjects s))"
  using assms by (simp_all add: deleteSelected_def deselectAll_def objects_foldl_deleteOne)

text \<open>
  What \<open>deleteSelected\<close> does clean up: an object of the selection leaves the scene, the
  selection is emptied and the clip under the id of the object is deleted.
\<close>

lemma deleteSelected_removes:
  assumes "heap_inv s" "ob \<in> set (objects s)" "ref ob \<in> set (selectedObjects s)"
  shows "ob \<notin> set (objects (deleteSelected s))"
    "set (objects (deleteSelected s)) \<subseteq> set (objects s)"
    "selectedObjects (deleteSelected s) = []"
    "clips (deleteSelected s) (obj_id ob) = None"
proof -
  from assms have ne: "selectedObjects s \<noteq> []" by auto
  note f = deleteSelected_fields [OF ne]
  from assms have dist: "distinct (map ref (objects s))" by (simp add: heap_inv_def)
  show "ob \<notin> set (objects (deleteSelected s))" using assms by (simp add: f)
  show "set (objects (deleteSelected s)) \<subseteq> set (objects s)" by (auto simp: f)
  show "selectedObjects (deleteSelected s) = []" by (rule f(2))
  show "clips (deleteSelected s) (obj_id ob) = None"
    using assms dist by (simp add: f clips_foldl_deleteOne)
qed

lemma trackedScene_eval:
  "trackedScene = init
     \<lparr>objects :=
        [\<lparr>ref = 1, obj_id = 1, obj_name = ''Camera_1'', obj_type = ''camera'',
          position = (2, 2, 2), rotation = (0, 0, 0), scale = (1, 1, 1)\<rparr>,
         \<lparr>ref = 2, obj_id = 2, obj_name = ''Cube_2'', obj_type = ''cube'',
          position = (0, 0.5, 0), rotation = (0, 0, 0), scale = (1, 1, 1)\<rparr>],
      selectedObjects := [2], sceneCameras := [1], cameraTrackTargets := [(1, 2)],
      objectIdCounter := 2, nextRef := 3\<rparr>"
  by (simp add: trackedScene_def trackedFile_def load_def restoreState_def restoreObject_def
      createObjectFromData_def deselectAll_def selectObject_def addToSelection_def Let_def
      init_eval)

lemma deleteSelected_trackedScene:
  "deleteSelected trackedScene = init
     \<lparr>objects :=
        [\<lparr>ref = 1, obj_id = 1, obj_name = ''Camera_1'', obj_type = ''camera'',
          position = (2, 2, 2), rotation = (0, 0, 0), scale = (1, 1, 1)\<rparr>],
      selectedObjects := [], sceneCameras := [1], cameraTrackTargets := [(1, 2)],
      objectIdCounter := 2, nextRef := 3,
      undoStack := [snap1, snap1,
        \<lparr>snap_objects =
           [\<lparr>d_id = 1, d_name = ''Camera_1'', d_type = ''camera'', d_position = (2, 2, 2),
             d_rotation = (0, 0, 0), d_scale = (1, 1, 1), d_trackTarget = Some 2\<rparr>],
         snap_clips = Map.empty\<rparr>]\<rparr>"
  unfolding trackedScene_eval
  by (simp add: deleteSelected_def deleteOne_def deselectAll_def init_eval saveState_def
      currentSnapshot_def serializeObject_def deref_def Let_def)

lemma redo_undo_deleteSelected_trackedScene:
  "redo (undo (deleteSelected trackedScene)) = init
     \<lparr>objects :=
        [\<lparr>ref = 4, obj_id = 1, obj_name = ''Camera_1'', obj_type = ''camera'',
          position = (2, 2, 2), rotation = (0, 0, 0), scale = (1, 1, 1)\<rparr>],
      selectedObjects := [], sceneCameras := [4], cameraTrackTargets := [(1, 2)],
      objectIdCounter := 1, nextRef := 5,
      undoStack := [snap1, snap1,
        \<lparr>snap_objects =
           [\<lparr>d_id = 1, d_name = ''Camera_1'', d_type = ''camera'', d_position = (2, 2, 2),
             d_rotation = (0, 0, 0), d_scale = (1, 1, 1), d_trackTarget = Some 2\<rparr>],
         snap_clips = Map.empty\<rparr>]\<rparr>"
  unfolding deleteSelected_trackedScene
  by (simp add: init_eval undo_def redo_def restoreState_def restoreObject_def
      createObjectFromData_def deselectAll_def Let_def snap1_def)

lemma previewScene_eval:
  "previewScene = init
     \<lparr>objects :=
        [\<lparr>ref = 1, obj_id = 1, obj_name = ''Camera_1'', obj_type = ''camera'',
          position = (2, 2, 2), rotation = (0, 0, 0), scale = (1, 1, 1)\<rparr>,
         \<lparr>ref = 2, obj_id = 2, obj_name = ''Cube_2'', obj_type = ''cube'',
          position = (0, 0.5, 0), rotation = (0, 0, 0), scale = (1, 1, 1)\<rparr>],
      selectedObjects := [1], sceneCameras := [1], activeSceneCamera := Some 1,
      cameraTrackTargets := [(1, 2)], objectIdCounter := 2, nextRef := 3\<rparr>"
  by (simp add: previewScene_def trackedFile_def load_def restoreState_def restoreObject_def
      createObjectFromData_def deselectAll_def selectObject_def addToSelection_def Let_def
      selectCamera_def deref_def init_eval)

text \<open>
  Claim C2 fails on the code for \<open>deleteSelected\<close>, which removes the object from the
  scene, from the scene cameras and from the clips, but neither from the track-target
  bindings nor from the active preview camera.

  In the tracked scene (camera 1 tracks cube 2, the cube selected), \<open>deleteSelected\<close>
  leaves the camera alone in the scene and no clip under id 2, but \<open>cameraTrackTargets\<close>
  still maps camera 1 to target 2, and the snapshot that the deletion saves records that
  target. After \<open>undo\<close> and \<open>redo\<close> the counter is 1, so \<open>addQuad\<close> gives a new quad
  the id 2: the binding of the deleted cube now finds the quad, and the tick turns the
  camera towards it.

  In the same scene with the camera chosen for the preview and then deleted,
  \<open>activeSceneCamera\<close> still refers to the deleted camera, which is neither in the scene
  nor among the scene cameras, and the preview of every later tick reads it.
\<close>

theorem deleteSelected_leaves_references:
  "map obj_id (objects trackedScene) = [1, 2]
   \<and> selectedObjects trackedScene = [2]
   \<and> cameraTrackTargets trackedScene = [(1, 2)]
   \<and> map obj_id (objects (deleteSelected trackedScene)) = [1]
   \<and> clips (deleteSelected trackedScene) 2 = None
   \<and> cameraTrackTargets (deleteSelected trackedScene) = [(1, 2)]
   \<and> map d_trackTarget (snap_objects (last (undoStack (deleteSelected trackedScene))))
       = [Some 2]
   \<and> map obj_name (objects (addQuad (redo (undo (deleteSelected trackedScene)))))
       = [''Camera_1'', ''Quad_2'']
   \<and> map obj_id (objects (addQuad (redo (undo (deleteSelected trackedScene))))) = [1, 2]
   \<and> cameraTrackTargets (addQuad (redo (undo (deleteSelected trackedScene)))) = [(1, 2)]
   \<and> map (obj_name \<circ> snd) (trackingPairs (addQuad (redo (undo (deleteSelected trackedScene)))))
       = [''Quad_2'']
   \<and> map rotation (objects (addQuad (redo (undo (deleteSelected trackedScene)))))
       = [(0, 0, 0), (- pi / 2, 0, 0)]
   \<and> map rotation (objects (updateCameraTracking lookAt
         (addQuad (redo (undo (deleteSelected trackedScene))))))
       = [lookAt (2, 2, 2) (0, 0, 0), (- pi / 2, 0, 0)]
   \<and> map rotation (objects (animate lookAt
         (addQuad (redo (undo (deleteSelected trackedScene))))))
       = [lookAt (2, 2, 2) (0, 0, 0), (- pi / 2, 0, 0)]
   \<and> selectedObjects previewScene = [1]
   \<and> previewRead previewScene = Some 1
   \<and> map ref (objects (deleteSelected previewScene)) = [2]
   \<and> sceneCameras (deleteSelected previewScene) = []
   \<and> deref (deleteSelected previewScene) 1 = None
   \<and> previewRead (deleteSelected previewScene) = Some 1
   \<and> previewRead (animate lookAt (deleteSelected previewScene)) = Some 1"
proof -
  have before: "map obj_id (objects trackedScene) = [1, 2]
      \<and> selectedObjects trackedScene = [2] \<and> cameraTrackTargets trackedScene = [(1, 2)]"
    unfolding trackedScene_eval by simp
  have deleted: "map obj_id (objects (deleteSelected trackedScene)) = [1]
      \<and> clips (deleteSelected trackedScene) 2 = None
      \<and> cameraTrackTargets (deleteSelected trackedScene) = [(1, 2)]
      \<and> map d_trackTarget (snap_objects (last (undoStack (deleteSelected trackedScene))))
          = [Some 2]"
    unfolding deleteSelected_trackedScene by (simp add: init_eval)
  have added: "addQuad (redo (undo (deleteSelected trackedScene))) =
      saveState (init
       \<lparr>objects :=
          [\<lparr>ref = 4, obj_id = 1, obj_name = ''Camera_1'', obj_type = ''camera'',
            position = (2, 2, 2), rotation = (0, 0, 0), scale = (1, 1, 1)\<rparr>,
           \<lparr>ref = 5, obj_id = 2, obj_name = ''Quad_2'', obj_type = ''quad'',
            position = (0, 0, 0), rotation = (- pi / 2, 0, 0), scale = (1, 1, 1)\<rparr>],
        selectedObjects := [5], sceneCameras := [4], cameraTrackTargets := [(1, 2)],
        objectIdCounter := 2, nextRef := 6,
        undoStack := [snap1, snap1,
          \<lparr>snap_objects =
             [\<lparr>d_id = 1, d_name = ''Camera_1'', d_type = ''camera'', d_position = (2, 2, 2),
               d_rotation = (0, 0, 0), d_scale = (1, 1, 1), d_trackTarget = Some 2\<rparr>],
           snap_clips = Map.empty\<rparr>]\<rparr>)"
    unfolding redo_undo_deleteSelected_trackedScene
    by (simp add: addQuad_def addObject_def Let_def init_eval selectObject_def deselectAll_def
        addToSelection_def showInt_2)
  have reused: "map obj_name (objects (addQuad (redo (undo (deleteSelected trackedScene)))))
       = [''Camera_1'', ''Quad_2'']
     \<and> map obj_id (objects (addQuad (redo (undo (deleteSelected trackedScene))))) = [1, 2]
     \<and> cameraTrackTargets (addQuad (redo (undo (deleteSelected trackedScene)))) = [(1, 2)]
     \<and> map rotation (objects (addQuad (redo (undo (deleteSelected trackedScene)))))
       = [(0, 0, 0), (- pi / 2, 0, 0)]"
    unfolding added by simp
  have pairs: "map (obj_name \<circ> snd)
      (trackingPairs (addQuad (redo (undo (deleteSelected trackedScene))))) = [''Quad_2'']"
    unfolding added
    by (simp add: trackingPairs_def lookupBinding_def List.map_filter_def)
  have tracked: "map rotation (objects (updateCameraTracking lookAt
         (addQuad (redo (undo (deleteSelected trackedScene))))))
       = [lookAt (2, 2, 2) (0, 0, 0), (- pi / 2, 0, 0)]"
    unfolding added
    by (simp add: updateCameraTracking_def lookupBinding_def updateObject_def)
  have playing: "\<not> isPlaying (addQuad (redo (undo (deleteSelected trackedScene))))"
    unfolding added by (simp add: saveState_def Let_def init_eval)
  have ticked: "map rotation (objects (animate lookAt
         (addQuad (redo (undo (deleteSelected trackedScene))))))
       = [lookAt (2, 2, 2) (0, 0, 0), (- pi / 2, 0, 0)]"
    using tracked playing by (simp add: animate_def)
  have preview: "selectedObjects previewScene = [1] \<and> previewRead previewScene = Some 1"
    unfolding previewScene_eval by (simp add: previewRead_def)
  have stale: "map ref (objects (deleteSelected previewScene)) = [2]
     \<and> sceneCameras (deleteSelected previewScene) = []
     \<and> deref (deleteSelected previewScene) 1 = None
     \<and> previewRead (deleteSelected previewScene) = Some 1"
    unfolding previewScene_eval
    by (simp add: deleteSelected_def deleteOne_def deselectAll_def deref_def previewRead_def
        saveState_def Let_def)
  have later: "previewRead (animate lookAt (deleteSelected previewScene)) = Some 1"
    unfolding previewScene_eval
    by (simp add: deleteSelected_def deleteOne_def deselectAll_def deref_def previewRead_def
        saveState_def Let_def animate_def updateCameraTracking_def lookupBinding_def init_eval)
  from before deleted reused pairs tracked ticked preview stale later show ?thesis
    by simp
qed

section \<open>Adding keyframes\<close>






lemma addKeyframeOne_fields [simp]:
  "objects (addKeyframeOne s r) = objects s"
  "currentFrame (addKeyframeOne s r) = currentFrame s"
  "deref (addKeyframeOne s r) = deref s"
  by (auto simp: addKeyframeOne_def deref_def Let_def split: option.splits)

lemma foldl_addKeyframeOne_fields [simp]:
  "objects (foldl addKeyframeOne s rs) = objects s"
  "currentFrame (foldl addKeyframeOne s rs) = currentFrame s"
  "deref (foldl addKeyframeOne s rs) = deref s"
  by (induction rs arbitrary: s) simp_all












lemma addKeyframe_no_camera:
  assumes "\<forall>r\<in>set (selectedObjects s). \<forall>ob. deref s r = Some ob \<longrightarrow> obj_type ob \<noteq> ''camera''"
  shows "addKeyframe s = saveState s"
proof -
  have "foldl addKeyframeOne s rs = s"
    if "\<forall>r\<in>set rs. \<forall>ob. deref s r = Some ob \<longrightarrow> obj_type ob \<noteq> ''camera''" for rs
    using that by (induction rs) (auto simp: addKeyframeOne_def split: option.splits)
  with assms show ?thesis by (simp add: addKeyframe_def)
qed





end
